theory Spec2Isabelle
  imports Complex_Main
begin

section \<open>Lyric timeline lookup (app/srt/parser.py)\<close>

text \<open>
  \<^verbatim>\<open>class LyricLine(NamedTuple): index, start_ms, end_ms, text\<close>.
  Python's unbounded integers are \<open>int\<close>; the field \<^verbatim>\<open>text\<close> is named
  \<open>lyric_text\<close> and \<^verbatim>\<open>index\<close> is named \<open>lyric_index\<close>.
\<close>

record LyricLine =
  lyric_index :: int
  start_ms :: int
  end_ms :: int
  lyric_text :: string

text \<open>
  The body of the \<^verbatim>\<open>for i, line in enumerate(lyrics)\<close> loop of
  \<^verbatim>\<open>get_lyric_at_position\<close>; the third argument is the running value of \<^verbatim>\<open>i\<close>.
\<close>

fun lyric_scan :: "LyricLine list \<Rightarrow> int \<Rightarrow> int \<Rightarrow> int \<times> string" where
  "lyric_scan [] adjusted i = (- 1, '''')"
| "lyric_scan (line # rest) adjusted i =
     (if start_ms line \<le> adjusted \<and> adjusted < end_ms line
      then (i, lyric_text line)
      else lyric_scan rest adjusted (i + 1))"

definition get_lyric_at_position :: "LyricLine list \<Rightarrow> int \<Rightarrow> int \<Rightarrow> int \<times> string" where
  "get_lyric_at_position lyrics position_ms offset_ms =
     (let adjusted = position_ms + offset_ms in lyric_scan lyrics adjusted 0)"

text \<open>The condition tested on each line: the line is active at the adjusted time.\<close>

definition active_at :: "LyricLine \<Rightarrow> int \<Rightarrow> bool" where
  "active_at line t \<longleftrightarrow> start_ms line \<le> t \<and> t < end_ms line"

section \<open>Simulator canvas state (app/ui/oled_simulator.py)\<close>

text \<open>
  The fields of \<^verbatim>\<open>_OledCanvas\<close> that the lyric path reads and writes. Repaint requests and
  the scroll timers carry no data and are left out.
\<close>

record OledCanvas =
  current_text :: string
  text_size :: int
  display_mode :: string
  lyric_scroll_offset :: int
  total_lyric_height :: int

definition canvas_clear :: "OledCanvas \<Rightarrow> OledCanvas" where
  "canvas_clear c = c\<lparr>current_text := '''', lyric_scroll_offset := 0, total_lyric_height := 0\<rparr>"

definition canvas_set_text :: "OledCanvas \<Rightarrow> string \<Rightarrow> OledCanvas" where
  "canvas_set_text c txt =
     (if txt \<noteq> current_text c
      then c\<lparr>current_text := txt, lyric_scroll_offset := 0, total_lyric_height := 0\<rparr>
      else c)"

definition canvas_set_mode :: "OledCanvas \<Rightarrow> string \<Rightarrow> OledCanvas" where
  "canvas_set_mode c mode =
     (let mapped = (if mode = ''equalizer'' \<or> mode = ''EQ'' then ''equalizer'' else ''lyrics'')
      in if mapped \<noteq> display_mode c
         then c\<lparr>display_mode := mapped, lyric_scroll_offset := 0\<rparr>
         else c)"

section \<open>Position tick of the main window (app/ui/main_window.py)\<close>

text \<open>
  The calls \<^verbatim>\<open>_sync_lyrics\<close> makes on the serial connection object, in order. The call is
  recorded only where the source guards it with \<^verbatim>\<open>self.serial.is_connected\<close>.
\<close>

datatype serial_call =
  Send_clear
| Send_text string
| Send_mode string

text \<open>
  The state \<^verbatim>\<open>_sync_lyrics\<close> reads and writes: the loaded lyric set, the two offsets, the
  configured display mode, the gap flag, the cached index, the connection flag of the
  serial object, the log of calls made on it, and the simulator canvas. The label showing
  the lyric on the PC and the offset dialog receive the text on every tick and are not
  modelled.
\<close>

record MainWindow =
  lyrics :: "LyricLine list"
  track_offset_ms :: int
  config_global_offset_ms :: int
  config_display_mode :: string
  in_lyric_gap :: bool
  last_lyric_idx :: int
  serial_is_connected :: bool
  serial_calls :: "serial_call list"
  oled_sim :: OledCanvas

text \<open>The loop of \<^verbatim>\<open>_gap_until_next_lyric\<close>, on the value \<^verbatim>\<open>adjusted\<close>.\<close>

fun gap_scan :: "LyricLine list \<Rightarrow> int \<Rightarrow> int" where
  "gap_scan [] adjusted = - 1"
| "gap_scan (line # rest) adjusted =
     (if start_ms line > adjusted then start_ms line - adjusted else gap_scan rest adjusted)"

definition gap_until_next_lyric :: "MainWindow \<Rightarrow> int \<Rightarrow> int \<Rightarrow> int" where
  "gap_until_next_lyric w position_ms total_offset =
     (let adjusted = position_ms - total_offset in gap_scan (lyrics w) adjusted)"

definition serial_send :: "MainWindow \<Rightarrow> serial_call \<Rightarrow> MainWindow" where
  "serial_send w c = w\<lparr>serial_calls := serial_calls w @ [c]\<rparr>"

text \<open>Lines 574 to 588: automatic switch to the equalizer during lyric gaps.\<close>

definition auto_switch :: "MainWindow \<Rightarrow> string \<Rightarrow> int \<Rightarrow> int \<Rightarrow> MainWindow" where
  "auto_switch w txt position_ms total_offset =
     (if config_display_mode w = ''lyrics'' then
        if txt = '''' \<and> \<not> in_lyric_gap w then
          let gap_ms = gap_until_next_lyric w position_ms total_offset in
          if gap_ms < 0 \<or> gap_ms > 300 then
            let w1 = w\<lparr>in_lyric_gap := True\<rparr>;
                w2 = (if serial_is_connected w1 then serial_send w1 (Send_mode ''equalizer'') else w1)
            in w2\<lparr>oled_sim := canvas_set_mode (oled_sim w2) ''equalizer''\<rparr>
          else w
        else if txt \<noteq> '''' \<and> in_lyric_gap w then
          let w1 = w\<lparr>in_lyric_gap := False\<rparr>;
              w2 = (if serial_is_connected w1 then serial_send w1 (Send_mode ''lyrics'') else w1)
          in w2\<lparr>oled_sim := canvas_set_mode (oled_sim w2) ''lyrics''\<rparr>
        else w
      else w)"

text \<open>Lines 590 to 601: the device and the simulator get the line only when the index changes.\<close>

definition line_update :: "MainWindow \<Rightarrow> int \<Rightarrow> string \<Rightarrow> MainWindow" where
  "line_update w idx txt =
     (if idx \<noteq> last_lyric_idx w then
        let w1 = w\<lparr>last_lyric_idx := idx\<rparr>;
            w2 = (if serial_is_connected w1 \<and> \<not> in_lyric_gap w1
                  then (if txt \<noteq> '''' then serial_send w1 (Send_text txt)
                        else serial_send w1 Send_clear)
                  else w1)
        in if txt \<noteq> '''' then w2\<lparr>oled_sim := canvas_set_text (oled_sim w2) txt\<rparr>
           else if \<not> in_lyric_gap w2 then w2\<lparr>oled_sim := canvas_clear (oled_sim w2)\<rparr>
           else w2
      else w)"

definition sync_lyrics :: "MainWindow \<Rightarrow> int \<Rightarrow> MainWindow" where
  "sync_lyrics w position_ms =
     (if lyrics w = [] then w
      else
        let total_offset = track_offset_ms w + config_global_offset_ms w;
            (idx, txt) = get_lyric_at_position (lyrics w) position_ms total_offset;
            w1 = auto_switch w txt position_ms total_offset
        in line_update w1 idx txt)"

text \<open>The calls a tick added to the log of the serial object.\<close>

definition issued :: "MainWindow \<Rightarrow> MainWindow \<Rightarrow> serial_call list" where
  "issued w w' = drop (length (serial_calls w)) (serial_calls w')"

fun is_lyric_call :: "serial_call \<Rightarrow> bool" where
  "is_lyric_call Send_clear = True"
| "is_lyric_call (Send_text t) = True"
| "is_lyric_call (Send_mode m) = False"

text \<open>
  The time from the instant the lookup resolves (\<open>position_ms + total_offset\<close>, as in
  \<^verbatim>\<open>get_lyric_at_position\<close>) to the start of the next line, \<open>-1\<close> when no line starts
  later: what the docstring of \<^verbatim>\<open>_gap_until_next_lyric\<close> names, measured on the time base
  on which the lines are resolved.
\<close>

definition time_until_next_line :: "LyricLine list \<Rightarrow> int \<Rightarrow> int \<Rightarrow> int" where
  "time_until_next_line ls position_ms total_offset = gap_scan ls (position_ms + total_offset)"

text \<open>The lyric set of the hysteresis example and a freshly loaded track in lyrics mode.\<close>

definition example_lyrics :: "LyricLine list" where
  "example_lyrics =
     [\<lparr>lyric_index = 1, start_ms = 0, end_ms = 1000, lyric_text = ''a''\<rparr>,
      \<lparr>lyric_index = 2, start_ms = 1400, end_ms = 2000, lyric_text = ''b''\<rparr>]"

definition loaded_track :: "LyricLine list \<Rightarrow> int \<Rightarrow> bool \<Rightarrow> MainWindow" where
  "loaded_track ls track_offset conn =
     \<lparr>lyrics = ls, track_offset_ms = track_offset, config_global_offset_ms = 0,
      config_display_mode = ''lyrics'', in_lyric_gap = False, last_lyric_idx = - 1,
      serial_is_connected = conn, serial_calls = [],
      oled_sim = \<lparr>current_text = '''', text_size = 2, display_mode = ''lyrics'',
                  lyric_scroll_offset = 0, total_lyric_height = 0\<rparr>\<rparr>"

section \<open>Serial connection and heartbeat (app/serial_comm/connection.py)\<close>

text \<open>The Qt signals of \<^verbatim>\<open>SerialConnection\<close>.\<close>

datatype signal =
  Connected
| Disconnected
| Button_press
| Button_long
| Error string

text \<open>
  The state of \<^verbatim>\<open>SerialConnection\<close>. \<open>serial_open\<close> stands for
  \<^verbatim>\<open>self._serial and self._serial.is_open\<close>; \<open>ping_timer_active\<close> for the running state of
  \<^verbatim>\<open>_ping_timer\<close>; \<open>emitted\<close> is the log of signals emitted and \<open>written\<close> the log of data
  passed to the port; \<open>scheduled\<close> counts the \<^verbatim>\<open>close_port\<close> calls posted with
  \<^verbatim>\<open>QTimer.singleShot(0, self.close_port)\<close> and not yet run; \<open>reader_alive\<close> says that the
  reader thread started by \<^verbatim>\<open>open_port\<close> is still inside \<^verbatim>\<open>_reader_loop\<close>. \<^verbatim>\<open>time.time()\<close>
  is a parameter of each operation, a real number of seconds.
\<close>

record SerialConnection =
  serial_open :: bool
  port :: string
  baud :: int
  running :: bool
  is_connected :: bool
  last_pong_time :: real
  ping_timer_active :: bool
  emitted :: "signal list"
  written :: "string list"
  scheduled :: nat
  reader_alive :: bool

definition PING_INTERVAL_S :: real where
  "PING_INTERVAL_S = 2"

definition PONG_TIMEOUT_S :: real where
  "PONG_TIMEOUT_S = 5"

definition new_connection :: SerialConnection where
  "new_connection =
     \<lparr>serial_open = False, port = '''', baud = 115200, running = False, is_connected = False,
      last_pong_time = 0, ping_timer_active = False, emitted = [], written = [],
      scheduled = 0, reader_alive = False\<rparr>"

definition emit :: "SerialConnection \<Rightarrow> signal \<Rightarrow> SerialConnection" where
  "emit c sg = c\<lparr>emitted := emitted c @ [sg]\<rparr>"

text \<open>\<^verbatim>\<open>_write\<close>: data reaches the port only while it is open; a failed write is swallowed.\<close>

definition write_data :: "SerialConnection \<Rightarrow> string \<Rightarrow> SerialConnection" where
  "write_data c d = (if serial_open c then c\<lparr>written := written c @ [d]\<rparr> else c)"

text \<open>
  \<^verbatim>\<open>close_port\<close>. The reader thread sees \<^verbatim>\<open>_running\<close> cleared when its read (timeout 0.1 s)
  returns or fails, and leaves its loop without emitting; the join waits for that.
\<close>

definition close_port :: "SerialConnection \<Rightarrow> SerialConnection" where
  "close_port c =
     (let c1 = c\<lparr>running := False, ping_timer_active := False\<rparr>;
          c2 = c1\<lparr>reader_alive := False\<rparr>;
          c3 = c2\<lparr>serial_open := False\<rparr>
      in if is_connected c3 then emit (c3\<lparr>is_connected := False\<rparr>) Disconnected else c3)"

text \<open>
  \<^verbatim>\<open>open_port\<close>; \<open>failure\<close> is \<open>Some e\<close> when \<^verbatim>\<open>serial.Serial(...)\<close> raises with message
  \<open>e\<close>, and \<open>None\<close> when the handle is acquired.
\<close>

definition open_port ::
  "SerialConnection \<Rightarrow> string \<Rightarrow> int \<Rightarrow> string option \<Rightarrow> real \<Rightarrow> bool \<times> SerialConnection" where
  "open_port c p b failure now =
     (let c1 = close_port c;
          c2 = c1\<lparr>port := p, baud := b\<rparr>
      in case failure of
           Some e \<Rightarrow> (False, emit c2 (Error (''Cannot open '' @ p @ '': '' @ e)))
         | None \<Rightarrow>
             (let c3 = c2\<lparr>serial_open := True\<rparr>;
                  c4 = c3\<lparr>running := True, last_pong_time := now, reader_alive := True\<rparr>;
                  c5 = c4\<lparr>ping_timer_active := True\<rparr>
              in (True, write_data c5 (''PING'' @ [CHR 0x0A]))))"

text \<open>\<^verbatim>\<open>_send_ping\<close>, the handler of the ping timer, at time \<open>now\<close>.\<close>

definition send_ping :: "SerialConnection \<Rightarrow> real \<Rightarrow> SerialConnection" where
  "send_ping c now =
     (if \<not> running c then c
      else
        let c1 = write_data c (''PING'' @ [CHR 0x0A])
        in if now - last_pong_time c1 > PONG_TIMEOUT_S then
             let c2 = (if is_connected c1 then c1\<lparr>is_connected := False\<rparr> else c1);
                 c3 = emit c2 (Error (''No response from '' @ port c2))
             in c3\<lparr>scheduled := scheduled c3 + 1\<rparr>
           else c1)"

text \<open>\<^verbatim>\<open>_process_line\<close>, on a stripped, non-empty line received at time \<open>now\<close>.\<close>

definition process_line :: "SerialConnection \<Rightarrow> string \<Rightarrow> real \<Rightarrow> SerialConnection" where
  "process_line c line now =
     (if line = ''PONG'' then
        let c1 = c\<lparr>last_pong_time := now\<rparr>
        in if \<not> is_connected c1 then emit (c1\<lparr>is_connected := True\<rparr>) Connected else c1
      else if line = ''BTN|PRESS'' then emit c Button_press
      else if line = ''BTN|LONG'' then emit c Button_long
      else c)"

text \<open>
  The \<^verbatim>\<open>except (serial.SerialException, OSError)\<close> branch of \<^verbatim>\<open>_reader_loop\<close>: a failed
  read while \<^verbatim>\<open>_running\<close> is set clears the connection flag and emits \<^verbatim>\<open>disconnected\<close>,
  without testing the flag, and the thread leaves its loop; \<^verbatim>\<open>_running\<close> stays set.
\<close>

definition reader_error :: "SerialConnection \<Rightarrow> SerialConnection" where
  "reader_error c =
     (if \<not> reader_alive c then c
      else
        let c1 = (if running c then emit (c\<lparr>is_connected := False\<rparr>) Disconnected else c)
        in c1\<lparr>reader_alive := False\<rparr>)"

text \<open>A complete line assembled by the reader thread, which dispatches it while it runs.\<close>

definition reader_line :: "SerialConnection \<Rightarrow> string \<Rightarrow> real \<Rightarrow> SerialConnection" where
  "reader_line c line now =
     (if reader_alive c \<and> running c \<and> serial_open c then process_line c line now else c)"

text \<open>
  The ping timer calls \<^verbatim>\<open>_send_ping\<close> only while it is active. A call posted with a
  zero-delay single shot runs on the main thread after the handler that posted it has
  returned.
\<close>

definition ping_timer_fires :: "SerialConnection \<Rightarrow> real \<Rightarrow> SerialConnection" where
  "ping_timer_fires c now = (if ping_timer_active c then send_ping c now else c)"

definition run_scheduled :: "SerialConnection \<Rightarrow> SerialConnection" where
  "run_scheduled c = (close_port ^^ scheduled c) (c\<lparr>scheduled := 0\<rparr>)"

text \<open>
  What can happen to an open connection: the ping timer fires at a time, the reader
  thread fails on a read, the reader thread delivers a line at a time, or the owner calls
  \<^verbatim>\<open>close_port\<close>. The two threads are interleaved handler by handler. The timer and the
  owner's call run on the main thread, where the calls posted earlier with a zero-delay
  single shot run first; the reader thread does not wait for them.
\<close>

datatype event =
  Ping_timeout real
| Read_error
| Line_received string real
| Close_called

fun dispatch :: "SerialConnection \<Rightarrow> event \<Rightarrow> SerialConnection" where
  "dispatch c (Ping_timeout now) = ping_timer_fires (run_scheduled c) now"
| "dispatch c Read_error = reader_error c"
| "dispatch c (Line_received line now) = reader_line c line now"
| "dispatch c Close_called = close_port (run_scheduled c)"

fun run_events :: "SerialConnection \<Rightarrow> event list \<Rightarrow> SerialConnection" where
  "run_events c [] = c"
| "run_events c (e # later) = run_events (dispatch c e) later"

text \<open>An episode, followed by the scheduler turn that runs what is still posted.\<close>

definition episode :: "SerialConnection \<Rightarrow> event list \<Rightarrow> SerialConnection" where
  "episode c evs = run_scheduled (run_events c evs)"

text \<open>
  The events of an episode in which no PONG is observed and the owner does not close the
  port: timer ticks, read failures, and lines other than \<^verbatim>\<open>PONG\<close>.
\<close>

fun silent :: "event \<Rightarrow> bool" where
  "silent (Ping_timeout now) = True"
| "silent Read_error = True"
| "silent (Line_received line now) = (line \<noteq> ''PONG'')"
| "silent Close_called = False"

fun timed_out_tick :: "real \<Rightarrow> event \<Rightarrow> bool" where
  "timed_out_tick t0 (Ping_timeout now) = (now - t0 > PONG_TIMEOUT_S)"
| "timed_out_tick t0 Read_error = False"
| "timed_out_tick t0 (Line_received line now) = False"
| "timed_out_tick t0 Close_called = False"

fun is_read_error :: "event \<Rightarrow> bool" where
  "is_read_error Read_error = True"
| "is_read_error (Ping_timeout now) = False"
| "is_read_error (Line_received line now) = False"
| "is_read_error Close_called = False"

fun is_error :: "signal \<Rightarrow> bool" where
  "is_error (Error e) = True"
| "is_error Connected = False"
| "is_error Disconnected = False"
| "is_error Button_press = False"
| "is_error Button_long = False"

text \<open>The connection state reached by a successful \<^verbatim>\<open>open_port\<close> at time \<open>t0\<close>.\<close>

definition opened :: "SerialConnection \<Rightarrow> string \<Rightarrow> int \<Rightarrow> real \<Rightarrow> SerialConnection" where
  "opened c p b t0 = snd (open_port c p b None t0)"

text \<open>The errors, and the number of disconnect signals, emitted after the first \<open>n\<close> signals.\<close>

definition errors_since :: "nat \<Rightarrow> SerialConnection \<Rightarrow> signal list" where
  "errors_since n c = filter is_error (drop n (emitted c))"

definition disconnects_since :: "nat \<Rightarrow> SerialConnection \<Rightarrow> nat" where
  "disconnects_since n c = length (filter (\<lambda>sg. sg = Disconnected) (drop n (emitted c)))"

text \<open>
  The states an episode without PONG passes through after a successful open of port \<open>p\<close>
  at time \<open>t0\<close>, with the signals counted after the first \<open>n\<close>: the link is never connected;
  while running, either nothing is posted and no error has been emitted, or one close is
  posted and the timeout error has been emitted; once closed, the error has been emitted.
  A disconnect is emitted at most once, and only by the reader thread as it dies.
\<close>

definition episode_inv :: "string \<Rightarrow> real \<Rightarrow> nat \<Rightarrow> SerialConnection \<Rightarrow> bool" where
  "episode_inv p t0 n c \<longleftrightarrow>
     port c = p \<and> last_pong_time c = t0 \<and> \<not> is_connected c \<and> n \<le> length (emitted c)
     \<and> disconnects_since n c \<le> 1
     \<and> (if reader_alive c then disconnects_since n c = 0 else True)
     \<and> (if running c
         then ping_timer_active c \<and> serial_open c
              \<and> (if scheduled c = 0 then errors_since n c = []
                  else scheduled c = 1
                       \<and> errors_since n c = [Error (''No response from '' @ p)])
         else \<not> ping_timer_active c \<and> \<not> reader_alive c \<and> \<not> serial_open c
              \<and> scheduled c = 0
              \<and> errors_since n c = [Error (''No response from '' @ p)])"

definition past_timeout :: "SerialConnection \<Rightarrow> bool" where
  "past_timeout c \<longleftrightarrow> scheduled c = 1 \<or> \<not> running c"

section \<open>Spectrum analyzer (app/audio/spectrum.py)\<close>

text \<open>
  Floating-point values are modelled as real numbers. \<^verbatim>\<open>int(x)\<close> on a float truncates
  towards zero.
\<close>

definition py_int :: "real \<Rightarrow> int" where
  "py_int x = (if x \<ge> 0 then \<lfloor>x\<rfloor> else \<lceil>x\<rceil>)"

definition NUM_BANDS :: nat where
  "NUM_BANDS = 12"

definition SAMPLE_RATE :: int where
  "SAMPLE_RATE = 44100"

definition FFT_SIZE :: nat where
  "FFT_SIZE = 2048"

text \<open>
  The fields of \<^verbatim>\<open>SpectrumAnalyzer\<close>: \<open>samples\<close> is \<open>None\<close> until a decode has completed
  (and after a failed one); the band table holds bin indices, which \<^verbatim>\<open>_compute_band_edges\<close>
  makes at least 1, so they are natural numbers here.
\<close>

record SpectrumAnalyzer =
  samples :: "real list option"
  sample_rate :: int
  band_edges :: "(nat \<times> nat) list"
  window :: "real list"

text \<open>The line \<^verbatim>\<open>level = int(max(0, min(12, (db + 48) * 12 / 45)))\<close>.\<close>

definition level_of_db :: "real \<Rightarrow> int" where
  "level_of_db db = py_int (max 0 (min 12 ((db + 48) * 12 / 45)))"

text \<open>\<^verbatim>\<open>np.sqrt(np.mean(fft_mag[low_bin:hi] ** 2))\<close>.\<close>

definition band_rms :: "real list \<Rightarrow> nat \<Rightarrow> nat \<Rightarrow> real" where
  "band_rms fft_mag low_bin hi =
     (let band = map (\<lambda>m. m ^ 2) (take (hi - low_bin) (drop low_bin fft_mag))
      in sqrt (sum_list band / real (length band)))"

definition db_of_rms :: "real \<Rightarrow> real" where
  "db_of_rms rms = 20 * log 10 (rms + 1 / 10 ^ 10)"

text \<open>The body of the loop over \<^verbatim>\<open>self._band_edges\<close>.\<close>

definition band_level :: "real list \<Rightarrow> nat \<times> nat \<Rightarrow> int" where
  "band_level fft_mag edge =
     (case edge of (low_bin, high_bin) \<Rightarrow>
        let hi = min high_bin (length fft_mag)
        in if low_bin \<ge> hi then 0
           else level_of_db (db_of_rms (band_rms fft_mag low_bin hi)))"

text \<open>
  \<^verbatim>\<open>get_levels\<close>. \<open>has_numpy\<close> is the module flag \<^verbatim>\<open>_HAS_NUMPY\<close>; \<open>rfft_abs\<close> stands for
  numpy's \<^verbatim>\<open>np.abs(np.fft.rfft(chunk))\<close>, which is outside the repository.
\<close>

definition get_levels ::
  "bool \<Rightarrow> (real list \<Rightarrow> real list) \<Rightarrow> SpectrumAnalyzer \<Rightarrow> int \<Rightarrow> int list option" where
  "get_levels has_numpy rfft_abs a position_ms =
     (if \<not> has_numpy then None
      else case samples a of
        None \<Rightarrow> None
      | Some smp \<Rightarrow>
          let sr = sample_rate a;
              sample_idx = py_int (real_of_int (position_ms * sr) / 1000);
              start = max 0 (sample_idx - int (FFT_SIZE div 2));
              end = start + int FFT_SIZE
          in if end > int (length smp) then Some (replicate NUM_BANDS 0)
             else
               let chunk = map2 (*) (take FFT_SIZE (drop (nat start) smp)) (window a);
                   fft_mag = map (\<lambda>m. m * 2 / real FFT_SIZE) (rfft_abs chunk)
               in Some (map (band_level fft_mag) (band_edges a)))"

text \<open>The end of the analysis window for a position, as \<^verbatim>\<open>get_levels\<close> computes it.\<close>

definition window_end :: "SpectrumAnalyzer \<Rightarrow> int \<Rightarrow> int" where
  "window_end a position_ms =
     max 0 (py_int (real_of_int (position_ms * sample_rate a) / 1000) - int (FFT_SIZE div 2))
       + int FFT_SIZE"

text \<open>
  The scaled magnitude spectrum \<^verbatim>\<open>fft_mag\<close> that \<^verbatim>\<open>get_levels\<close> computes at a position whose
  analysis window lies inside the samples: the window starts \<open>FFT_SIZE\<close> before its end.
\<close>

definition window_spectrum ::
  "(real list \<Rightarrow> real list) \<Rightarrow> SpectrumAnalyzer \<Rightarrow> real list \<Rightarrow> int \<Rightarrow> real list" where
  "window_spectrum rfft_abs a smp position_ms =
     (let start = window_end a position_ms - int FFT_SIZE;
          chunk = map2 (*) (take FFT_SIZE (drop (nat start) smp)) (window a)
      in map (\<lambda>m. m * 2 / real FFT_SIZE) (rfft_abs chunk))"

text \<open>
  An analyzer holding 2048 decoded samples, three bands of one bin each, and a stand-in
  for numpy's transform that yields the magnitudes \<open>0, 1024, 1024 * (1/10 - 1e-10), 0\<close>,
  which the scaling by \<open>2 / FFT_SIZE\<close> turns into \<open>0, 1, 1/10 - 1e-10, 0\<close>.
\<close>

definition example_mag :: real where
  "example_mag = 1 / 10 - 1 / 10 ^ 10"

definition example_analyzer :: SpectrumAnalyzer where
  "example_analyzer =
     \<lparr>samples = Some (replicate 2048 0), sample_rate = 44100,
      band_edges = [(1, 2), (2, 3), (3, 4)], window = replicate 2048 1\<rparr>"

definition example_rfft_abs :: "real list \<Rightarrow> real list" where
  "example_rfft_abs chunk = [0, 1024, 1024 * example_mag, 0]"

section \<open>Python string operations used by the sources\<close>

text \<open>Python's \<^verbatim>\<open>str\<close> on an integer: decimal digits, with a minus sign when negative.\<close>

definition digit_char :: "nat \<Rightarrow> char" where
  "digit_char d = char_of (48 + d)"

fun str_nat :: "nat \<Rightarrow> string" where
  "str_nat n = (if n < 10 then [digit_char n] else str_nat (n div 10) @ [digit_char (n mod 10)])"

definition str_int :: "int \<Rightarrow> string" where
  "str_int i = (if i < 0 then CHR ''-'' # str_nat (nat (- i)) else str_nat (nat i))"

text \<open>\<^verbatim>\<open>sep.join(parts)\<close>.\<close>

fun join_str :: "string \<Rightarrow> string list \<Rightarrow> string" where
  "join_str sep [] = []"
| "join_str sep [x] = x"
| "join_str sep (x # y # ys) = x @ sep @ join_str sep (y # ys)"

text \<open>
  \<^verbatim>\<open>s.split(c)\<close> for a one-character separator: a string with \<open>n\<close> separators gives \<open>n + 1\<close>
  fields, and the empty string gives one empty field.
\<close>

fun split_on :: "char \<Rightarrow> string \<Rightarrow> string list" where
  "split_on c [] = [[]]"
| "split_on c (x # xs) =
     (if x = c then [] # split_on c xs
      else case split_on c xs of
             [] \<Rightarrow> [[x]]
           | f # fs \<Rightarrow> (x # f) # fs)"

text \<open>ASCII decimal digits, and the value of a string of digits (\<open>None\<close> on any other character).\<close>

definition is_digit :: "char \<Rightarrow> bool" where
  "is_digit ch \<longleftrightarrow> 48 \<le> (of_char ch :: nat) \<and> (of_char ch :: nat) \<le> 57"

fun parse_digits :: "string \<Rightarrow> nat \<Rightarrow> nat option" where
  "parse_digits [] acc = Some acc"
| "parse_digits (ch # rest) acc =
     (if is_digit ch then parse_digits rest (10 * acc + (of_char ch - 48)) else None)"

text \<open>A list of results, or \<open>None\<close> as soon as one of them is \<open>None\<close>.\<close>

fun sequence_options :: "'a option list \<Rightarrow> 'a list option" where
  "sequence_options [] = Some []"
| "sequence_options (None # rest) = None"
| "sequence_options (Some v # rest) = map_option ((#) v) (sequence_options rest)"

section \<open>Equalizer line on the wire (app/serial_comm/connection.py)\<close>

text \<open>
  \<^verbatim>\<open>send_equalizer\<close>: the value is the data handed to \<^verbatim>\<open>_write\<close>. The levels are Python
  integers, on which \<^verbatim>\<open>int(v)\<close> is the identity.
\<close>

definition send_equalizer :: "int list \<Rightarrow> string" where
  "send_equalizer levels =
     (let clean_levels = map (\<lambda>v. str_int (max 0 (min 12 v))) levels;
          payload = join_str '','' clean_levels
      in ''EQ|'' @ payload @ [CHR 0x0A])"

text \<open>
  Modelled from the spec: the parsing of one field of the payload on the device, which is
  firmware and not part of the sources. A field is a decimal integer: digits, with an
  optional minus sign in front.
\<close>

definition parse_int :: "string \<Rightarrow> int option" where
  "parse_int s =
     (case s of
        [] \<Rightarrow> None
      | ch # rest \<Rightarrow>
          if ch = CHR ''-'' then
            (if rest = [] then None else map_option (\<lambda>n. - int n) (parse_digits rest 0))
          else map_option int (parse_digits s 0))"

text \<open>
  Modelled from the spec: the fields of the payload of an \<^verbatim>\<open>EQ|...\<close> line as the device,
  which is firmware and not part of the sources, reads them. The payload holds the levels
  separated by commas; an empty payload holds no level.
\<close>

definition payload_fields :: "string \<Rightarrow> string list" where
  "payload_fields payload = (if payload = [] then [] else split_on CHR '','' payload)"

text \<open>
  Modelled from the spec: the device-side reader of the \<^verbatim>\<open>EQ|...\<close> line, which is firmware
  and not part of the sources. The line, without its terminator, must start with \<^verbatim>\<open>EQ|\<close>;
  the payload is split on commas and every field is parsed as an integer.
\<close>

definition parse_equalizer_line :: "string \<Rightarrow> int list option" where
  "parse_equalizer_line data =
     (if data \<noteq> [] \<and> last data = CHR 0x0A \<and> take 3 data = ''EQ|''
      then sequence_options (map parse_int (payload_fields (drop 3 (butlast data))))
      else None)"

section \<open>Monospace word wrap (app/ui/oled_simulator.py)\<close>

definition SCREEN_WIDTH :: int where
  "SCREEN_WIDTH = 128"

definition GFX_CHAR_W :: int where
  "GFX_CHAR_W = 6"

definition GFX_CHAR_H :: int where
  "GFX_CHAR_H = 8"

text \<open>
  Python slices \<^verbatim>\<open>text[a:b]\<close> and \<^verbatim>\<open>text[a:]\<close> on integers that may be negative: a negative
  bound counts from the end, and both bounds are clipped to the string.
\<close>

definition slice_bound :: "string \<Rightarrow> int \<Rightarrow> nat" where
  "slice_bound txt i =
     (if i < 0 then nat (max 0 (i + int (length txt))) else min (nat i) (length txt))"

definition py_slice :: "string \<Rightarrow> int \<Rightarrow> int \<Rightarrow> string" where
  "py_slice txt a b = take (slice_bound txt b - slice_bound txt a) (drop (slice_bound txt a) txt)"

definition py_slice_from :: "string \<Rightarrow> int \<Rightarrow> string" where
  "py_slice_from txt a = drop (slice_bound txt a) txt"

text \<open>
  The inner loop \<^verbatim>\<open>for i in range(pos, min(break_at, length)): if text[i] == " ":
  last_space = i\<close>, over the list of indices of the range. The range is non-empty only
  for \<open>0 \<le> pos < length\<close>, so every \<^verbatim>\<open>text[i]\<close> read is in range.
\<close>

fun scan_spaces :: "string \<Rightarrow> int list \<Rightarrow> int \<Rightarrow> int" where
  "scan_spaces txt [] last_space = last_space"
| "scan_spaces txt (i # rest) last_space =
     scan_spaces txt rest (if txt ! nat i = CHR '' '' then i else last_space)"

text \<open>
  The \<^verbatim>\<open>while pos < length and len(lines) < 32\<close> loop of \<^verbatim>\<open>_word_wrap\<close>, on the loop
  variables \<open>pos\<close> and \<open>lines\<close>. Every iteration that does not leave the loop appends one
  line, so \<open>32 - len(lines)\<close> decreases.
\<close>

function word_wrap_loop :: "string \<Rightarrow> int \<Rightarrow> int \<Rightarrow> string list \<Rightarrow> string list" where
  "word_wrap_loop txt chars_per_line pos lines =
     (if pos < int (length txt) \<and> length lines < 32 then
        let remaining = int (length txt) - pos in
        if remaining \<le> chars_per_line then lines @ [py_slice_from txt pos]
        else
          let break_at = pos + chars_per_line;
              last_space = scan_spaces txt [pos..min break_at (int (length txt)) - 1] (- 1)
          in if last_space > pos
             then word_wrap_loop txt chars_per_line (last_space + 1)
                    (lines @ [py_slice txt pos last_space])
             else word_wrap_loop txt chars_per_line break_at
                    (lines @ [py_slice txt pos break_at])
      else lines)"
  by pat_completeness auto
termination
  by (relation "measure (\<lambda>(txt, chars_per_line, pos, lines). 32 - length lines)") auto

definition word_wrap :: "string \<Rightarrow> int \<Rightarrow> string list" where
  "word_wrap txt chars_per_line = word_wrap_loop txt chars_per_line 0 []"

text \<open>
  The monospace branch of \<^verbatim>\<open>_paint_lyrics\<close>, up to the assignment of
  \<^verbatim>\<open>_total_lyric_height\<close>; the drawing that follows changes no field.
\<close>

definition chars_per_line_of :: "OledCanvas \<Rightarrow> int" where
  "chars_per_line_of c = max 1 (SCREEN_WIDTH div (GFX_CHAR_W * text_size c))"

definition paint_lyrics :: "OledCanvas \<Rightarrow> OledCanvas" where
  "paint_lyrics c =
     (let char_w = GFX_CHAR_W * text_size c;
          char_h = GFX_CHAR_H * text_size c;
          chars_per_line = max 1 (SCREEN_WIDTH div char_w);
          lines = word_wrap (current_text c) chars_per_line
      in c\<lparr>total_lyric_height := int (length lines) * char_h\<rparr>)"

section \<open>Subtitle parser (app/srt/parser.py)\<close>































section \<open>Properties of the timeline lookup\<close>

lemma lyric_scan_none:
  "\<forall>line \<in> set ls. \<not> active_at line t \<Longrightarrow> lyric_scan ls t i = (- 1, '''')"
  by (induction ls arbitrary: i) (auto simp: active_at_def)

lemma lyric_scan_first:
  "k < length ls \<Longrightarrow> active_at (ls ! k) t \<Longrightarrow> \<forall>j < k. \<not> active_at (ls ! j) t
   \<Longrightarrow> lyric_scan ls t i = (i + int k, lyric_text (ls ! k))"
proof (induction ls arbitrary: i k)
  case Nil
  then show ?case by simp
next
  case (Cons line rest)
  show ?case
  proof (cases k)
    case 0
    with Cons.prems show ?thesis by (simp add: active_at_def)
  next
    case (Suc m)
    from Cons.prems Suc have head: "\<not> active_at line t" by auto
    from Cons.prems Suc have m: "m < length rest" "active_at (rest ! m) t" by auto
    from Cons.prems Suc have before: "\<forall>j < m. \<not> active_at (rest ! j) t" by auto
    from Cons.IH [OF m before, of "i + 1"] head Suc
    show ?thesis by (simp add: active_at_def)
  qed
qed

text \<open>
  C1. \<^verbatim>\<open>get_lyric_at_position(lyrics, position_ms, offset_ms)\<close> returns \<open>(k, text)\<close> for the
  first line in list order with \<open>start_ms \<le> position_ms + offset_ms < end_ms\<close>, and
  \<open>(-1, "")\<close> when no line satisfies it. The offset is applied on every call: resolving at
  \<open>(position, offset)\<close> is resolving at \<open>(position + offset, 0)\<close>, and two offsets at one raw
  position can give different results.
\<close>

theorem get_lyric_at_position_first_match:
  "(\<forall>k < length lines.
      active_at (lines ! k) (position_ms + offset_ms) \<and>
      (\<forall>j < k. \<not> active_at (lines ! j) (position_ms + offset_ms))
      \<longrightarrow> get_lyric_at_position lines position_ms offset_ms
            = (int k, lyric_text (lines ! k)))
   \<and> ((\<forall>k < length lines. \<not> active_at (lines ! k) (position_ms + offset_ms))
      \<longrightarrow> get_lyric_at_position lines position_ms offset_ms = (- 1, ''''))
   \<and> get_lyric_at_position lines position_ms offset_ms
       = get_lyric_at_position lines (position_ms + offset_ms) 0
   \<and> (\<exists>ls p o1 o2. get_lyric_at_position ls p o1 \<noteq> get_lyric_at_position ls p o2)"
proof (intro conjI allI impI)
  fix k
  assume "k < length lines"
    and "active_at (lines ! k) (position_ms + offset_ms) \<and>
         (\<forall>j < k. \<not> active_at (lines ! j) (position_ms + offset_ms))"
  then show "get_lyric_at_position lines position_ms offset_ms
             = (int k, lyric_text (lines ! k))"
    using lyric_scan_first [of k lines "position_ms + offset_ms" 0]
    by (simp add: get_lyric_at_position_def)
next
  assume "\<forall>k < length lines. \<not> active_at (lines ! k) (position_ms + offset_ms)"
  then have "\<forall>line \<in> set lines. \<not> active_at line (position_ms + offset_ms)"
    by (auto simp: in_set_conv_nth)
  then show "get_lyric_at_position lines position_ms offset_ms = (- 1, '''')"
    by (simp add: get_lyric_at_position_def lyric_scan_none)
next
  show "get_lyric_at_position lines position_ms offset_ms
        = get_lyric_at_position lines (position_ms + offset_ms) 0"
    by (simp add: get_lyric_at_position_def)
next
  let ?ls = "[\<lparr>lyric_index = 1, start_ms = 0, end_ms = 1000, lyric_text = ''a''\<rparr>]"
  have "get_lyric_at_position ?ls 500 0 \<noteq> get_lyric_at_position ?ls 500 1000"
    by (simp add: get_lyric_at_position_def)
  then show "\<exists>ls p o1 o2. get_lyric_at_position ls p o1 \<noteq> get_lyric_at_position ls p o2"
    by blast
qed

theorem get_lyric_at_position_first_match_witness:
  "get_lyric_at_position
     [\<lparr>lyric_index = 1, start_ms = 0, end_ms = 1000, lyric_text = ''a''\<rparr>,
      \<lparr>lyric_index = 2, start_ms = 1400, end_ms = 2000, lyric_text = ''b''\<rparr>,
      \<lparr>lyric_index = 3, start_ms = 1500, end_ms = 2500, lyric_text = ''c''\<rparr>] 1500 100
     = (1, ''b'')
   \<and> get_lyric_at_position
     [\<lparr>lyric_index = 1, start_ms = 0, end_ms = 1000, lyric_text = ''a''\<rparr>,
      \<lparr>lyric_index = 2, start_ms = 1400, end_ms = 2000, lyric_text = ''b''\<rparr>,
      \<lparr>lyric_index = 3, start_ms = 1500, end_ms = 2500, lyric_text = ''c''\<rparr>] 1100 100
     = (- 1, '''')"
proof -
  let ?ls = "[\<lparr>lyric_index = 1, start_ms = 0, end_ms = 1000, lyric_text = ''a''\<rparr>,
      \<lparr>lyric_index = 2, start_ms = 1400, end_ms = 2000, lyric_text = ''b''\<rparr>,
      \<lparr>lyric_index = 3, start_ms = 1500, end_ms = 2500, lyric_text = ''c''\<rparr>]"
  have hit: "active_at (?ls ! 1) (1500 + 100) \<and> (\<forall>j < 1. \<not> active_at (?ls ! j) (1500 + 100))"
    by (simp add: active_at_def)
  have miss: "\<forall>k < length ?ls. \<not> active_at (?ls ! k) (1100 + 100)"
    by (simp add: active_at_def less_Suc_eq nth_Cons')
  have len: "1 < length ?ls" by simp
  have a: "get_lyric_at_position ?ls 1500 100 = (1, ''b'')"
    using get_lyric_at_position_first_match
            [of ?ls 1500 100, THEN conjunct1, rule_format, OF len hit]
    by simp
  have b: "get_lyric_at_position ?ls 1100 100 = (- 1, '''')"
    using get_lyric_at_position_first_match
            [of ?ls 1100 100, THEN conjunct2, THEN conjunct1, THEN mp, OF miss] .
  from a b show ?thesis by simp
qed

section \<open>Properties of the position tick\<close>

lemma auto_switch_fields:
  "last_lyric_idx (auto_switch w txt p off) = last_lyric_idx w"
  "serial_is_connected (auto_switch w txt p off) = serial_is_connected w"
  "lyrics (auto_switch w txt p off) = lyrics w"
  by (simp_all add: auto_switch_def serial_send_def Let_def)

lemma auto_switch_calls:
  "\<exists>ms. serial_calls (auto_switch w txt p off) = serial_calls w @ ms
        \<and> filter is_lyric_call ms = []"
  by (simp add: auto_switch_def serial_send_def Let_def)

lemma line_update_gap:
  "in_lyric_gap (line_update w idx txt) = in_lyric_gap w"
  by (simp add: line_update_def serial_send_def Let_def)

lemma line_update_calls:
  "serial_calls (line_update w idx txt) =
     serial_calls w @
     (if idx \<noteq> last_lyric_idx w \<and> serial_is_connected w \<and> \<not> in_lyric_gap w
      then [if txt \<noteq> '''' then Send_text txt else Send_clear] else [])"
  by (simp add: line_update_def serial_send_def Let_def)

text \<open>
  With a zero total offset \<^verbatim>\<open>_gap_until_next_lyric\<close> measures the time to the next line on
  the time base of the lookup, and the gap flag is raised exactly when that time exceeds
  300 ms or no later line exists.
\<close>

lemma auto_switch_zero_offset:
  "config_display_mode w = ''lyrics'' \<Longrightarrow> \<not> in_lyric_gap w \<Longrightarrow>
   in_lyric_gap (auto_switch w '''' position_ms 0) \<longleftrightarrow>
     (time_until_next_line (lyrics w) position_ms 0 < 0
      \<or> time_until_next_line (lyrics w) position_ms 0 > 300)"
  by (simp add: auto_switch_def gap_until_next_lyric_def time_until_next_line_def
        serial_send_def Let_def)

lemma auto_switch_back:
  "config_display_mode w = ''lyrics'' \<Longrightarrow> in_lyric_gap w \<Longrightarrow> txt \<noteq> '''' \<Longrightarrow>
   \<not> in_lyric_gap (auto_switch w txt position_ms off)
   \<and> display_mode (oled_sim (auto_switch w txt position_ms off)) = ''lyrics''"
  by (simp add: auto_switch_def serial_send_def canvas_set_mode_def Let_def)

text \<open>
  C2. In lyrics mode a tick that resolves empty text with the gap flag clear raises the
  flag and switches to the equalizer iff the time until the next line's start exceeds
  300 ms or there is no next line. The example of the claim holds with a zero offset: on
  \<open>[(1,0,1000,"a"), (2,1400,2000,"b")]\<close> the ticks at 1000, 1399, 1400 give equalizer,
  equalizer, lyrics. With a track offset of 200 ms the code departs from the claim: at
  position 1000 the lookup resolves at 1200, the next line starts 200 ms later, yet
  \<^verbatim>\<open>_gap_until_next_lyric\<close> subtracts the offset, returns 600 and the tick switches to the
  equalizer.
\<close>

theorem sync_lyrics_gap_subtracts_offset:
  "(let w0 = loaded_track example_lyrics 0 True;
        w1 = sync_lyrics w0 1000; w2 = sync_lyrics w1 1399; w3 = sync_lyrics w2 1400
    in in_lyric_gap w1 \<and> display_mode (oled_sim w1) = ''equalizer''
     \<and> issued w0 w1 = [Send_mode ''equalizer'']
     \<and> in_lyric_gap w2 \<and> display_mode (oled_sim w2) = ''equalizer'' \<and> issued w1 w2 = []
     \<and> \<not> in_lyric_gap w3 \<and> display_mode (oled_sim w3) = ''lyrics''
     \<and> issued w2 w3 = [Send_mode ''lyrics'', Send_text ''b''])
   \<and> (let w = loaded_track example_lyrics 200 True; w' = sync_lyrics w 1000
      in get_lyric_at_position (lyrics w) 1000 200 = (- 1, '''')
       \<and> time_until_next_line (lyrics w) 1000 200 = 200
       \<and> gap_until_next_lyric w 1000 200 = 600
       \<and> in_lyric_gap w' \<and> display_mode (oled_sim w') = ''equalizer''
       \<and> issued w w' = [Send_mode ''equalizer''])"
  by (simp add: loaded_track_def example_lyrics_def sync_lyrics_def get_lyric_at_position_def
      auto_switch_def line_update_def issued_def Let_def canvas_set_text_def canvas_set_mode_def
      gap_until_next_lyric_def serial_send_def time_until_next_line_def)

text \<open>
  C8, as stated: a TXT (or CLR) command is issued iff the resolved index differs from the
  cached one, apart from the suppression while the gap flag is set. It fails when the
  serial link is not connected: on a freshly loaded track the tick at 500 resolves index 0,
  the cached index is -1, the gap flag is clear before and after the tick, and no call is
  made on the serial object.
\<close>

theorem lyric_command_needs_connection:
  "(let w = loaded_track example_lyrics 0 False; w' = sync_lyrics w 500
    in fst (get_lyric_at_position (lyrics w) 500
              (track_offset_ms w + config_global_offset_ms w)) \<noteq> last_lyric_idx w
     \<and> \<not> in_lyric_gap w \<and> \<not> in_lyric_gap w' \<and> issued w w' = [])"
  by (simp add: loaded_track_def example_lyrics_def sync_lyrics_def get_lyric_at_position_def
      auto_switch_def line_update_def issued_def Let_def canvas_set_text_def)

text \<open>
  C8, amended. On a tick with a non-empty lyric set, a TXT or CLR call is made iff the
  resolved index differs from the cached index, the serial link is connected and the gap
  flag, as this tick leaves it, is clear; the call is TXT with the resolved text when the
  text is non-empty and CLR otherwise, and at most one such call is made. A tick whose
  resolved index equals the cached index makes no lyric call.
\<close>

theorem lyric_command_issued_iff:
  assumes "lyrics w \<noteq> []"
    and "get_lyric_at_position (lyrics w) position_ms
           (track_offset_ms w + config_global_offset_ms w) = (idx, txt)"
  shows "filter is_lyric_call (issued w (sync_lyrics w position_ms)) =
           (if idx \<noteq> last_lyric_idx w \<and> serial_is_connected w
               \<and> \<not> in_lyric_gap (sync_lyrics w position_ms)
            then [if txt \<noteq> '''' then Send_text txt else Send_clear] else [])"
proof -
  let ?off = "track_offset_ms w + config_global_offset_ms w"
  let ?w1 = "auto_switch w txt position_ms ?off"
  have sync: "sync_lyrics w position_ms = line_update ?w1 idx txt"
    using assms by (simp add: sync_lyrics_def Let_def)
  obtain ms where ms: "serial_calls ?w1 = serial_calls w @ ms" "filter is_lyric_call ms = []"
    using auto_switch_calls by blast
  show ?thesis
    by (simp add: sync issued_def line_update_calls line_update_gap ms auto_switch_fields)
qed

theorem lyric_command_issued_iff_witness:
  "filter is_lyric_call
     (issued (loaded_track example_lyrics 0 True)
        (sync_lyrics (loaded_track example_lyrics 0 True) 500)) = [Send_text ''a'']
   \<and> filter is_lyric_call
     (issued (loaded_track example_lyrics 0 True)
        (sync_lyrics (loaded_track example_lyrics 0 True) 1000)) = []"
proof -
  let ?w = "loaded_track example_lyrics 0 True"
  have ne: "lyrics ?w \<noteq> []"
    by (simp add: loaded_track_def example_lyrics_def)
  have r1: "get_lyric_at_position (lyrics ?w) 500
              (track_offset_ms ?w + config_global_offset_ms ?w) = (0, ''a'')"
    by (simp add: loaded_track_def example_lyrics_def get_lyric_at_position_def)
  have r2: "get_lyric_at_position (lyrics ?w) 1000
              (track_offset_ms ?w + config_global_offset_ms ?w) = (- 1, '''')"
    by (simp add: loaded_track_def example_lyrics_def get_lyric_at_position_def)
  have g1: "\<not> in_lyric_gap (sync_lyrics ?w 500)"
    by (simp add: loaded_track_def example_lyrics_def sync_lyrics_def
        get_lyric_at_position_def auto_switch_def line_update_gap Let_def)
  have a: "filter is_lyric_call (issued ?w (sync_lyrics ?w 500)) = [Send_text ''a'']"
    using lyric_command_issued_iff [OF ne r1] g1 by (simp add: loaded_track_def)
  have b: "filter is_lyric_call (issued ?w (sync_lyrics ?w 1000)) = []"
    using lyric_command_issued_iff [OF ne r2] by (simp add: loaded_track_def)
  from a b show ?thesis by simp
qed

section \<open>Properties of the heartbeat\<close>

lemma opened_state:
  "running (opened c p b t0)" "\<not> is_connected (opened c p b t0)"
  "last_pong_time (opened c p b t0) = t0" "port (opened c p b t0) = p"
  "scheduled (opened c p b t0) = scheduled c" "ping_timer_active (opened c p b t0)"
  "serial_open (opened c p b t0)" "reader_alive (opened c p b t0)"
  by (simp_all add: opened_def open_port_def close_port_def write_data_def emit_def Let_def)

lemma run_scheduled_0: "scheduled c = 0 \<Longrightarrow> run_scheduled c = c"
  by (cases c) (simp add: run_scheduled_def)

lemma run_scheduled_1: "scheduled c = 1 \<Longrightarrow> run_scheduled c = close_port (c\<lparr>scheduled := 0\<rparr>)"
  by (simp add: run_scheduled_def)

lemma since_emit:
  "n \<le> length (emitted c) \<Longrightarrow>
   errors_since n (emit c sg) = errors_since n c @ (if is_error sg then [sg] else [])"
  "n \<le> length (emitted c) \<Longrightarrow>
   disconnects_since n (emit c sg) = disconnects_since n c + (if sg = Disconnected then 1 else 0)"
  by (simp_all add: errors_since_def disconnects_since_def emit_def)

lemma opened_inv:
  "scheduled c = 0 \<Longrightarrow> episode_inv p t0 (length (emitted (opened c p b t0))) (opened c p b t0)"
  by (simp add: episode_inv_def opened_state errors_since_def disconnects_since_def)

lemma run_scheduled_inv:
  assumes "episode_inv p t0 n c"
  shows "episode_inv p t0 n (run_scheduled c)"
    and "scheduled (run_scheduled c) = 0"
    and "past_timeout c \<Longrightarrow> \<not> running (run_scheduled c)"
    and "\<not> past_timeout c \<Longrightarrow> run_scheduled c = c"
    and "disconnects_since n (run_scheduled c) = disconnects_since n c"
    and "emitted (run_scheduled c) = emitted c"
proof -
  have sch: "scheduled c = 0 \<or> scheduled c = 1"
    using assms by (auto simp: episode_inv_def split: if_splits)
  then show "episode_inv p t0 n (run_scheduled c)"
    using assms
    by (auto simp: run_scheduled_0 run_scheduled_1 episode_inv_def close_port_def Let_def
          errors_since_def disconnects_since_def split: if_splits)
  from sch show "scheduled (run_scheduled c) = 0"
    using assms
    by (auto simp: run_scheduled_0 run_scheduled_1 episode_inv_def close_port_def Let_def)
  from sch show "past_timeout c \<Longrightarrow> \<not> running (run_scheduled c)"
    using assms
    by (auto simp: run_scheduled_0 run_scheduled_1 episode_inv_def close_port_def Let_def
          past_timeout_def)
  from sch show "\<not> past_timeout c \<Longrightarrow> run_scheduled c = c"
    by (auto simp: run_scheduled_0 past_timeout_def)
  from sch show "disconnects_since n (run_scheduled c) = disconnects_since n c"
    using assms
    by (auto simp: run_scheduled_0 run_scheduled_1 episode_inv_def close_port_def Let_def
          disconnects_since_def)
  from sch show "emitted (run_scheduled c) = emitted c"
    using assms
    by (auto simp: run_scheduled_0 run_scheduled_1 episode_inv_def close_port_def Let_def)
qed


lemma ping_inv:
  assumes "episode_inv p t0 n c" and "scheduled c = 0"
  shows "episode_inv p t0 n (ping_timer_fires c now)"
    and "disconnects_since n (ping_timer_fires c now) = disconnects_since n c"
    and "now - t0 > PONG_TIMEOUT_S \<or> past_timeout c \<Longrightarrow> past_timeout (ping_timer_fires c now)"
    and "\<not> now - t0 > PONG_TIMEOUT_S \<Longrightarrow> \<not> past_timeout c
         \<Longrightarrow> \<not> past_timeout (ping_timer_fires c now)
             \<and> emitted (ping_timer_fires c now) = emitted c"
  using assms
  by (auto simp: episode_inv_def ping_timer_fires_def send_ping_def write_data_def emit_def
        errors_since_def disconnects_since_def past_timeout_def Let_def split: if_splits)

lemma reader_error_inv:
  assumes "episode_inv p t0 n c"
  shows "episode_inv p t0 n (reader_error c)"
    and "past_timeout (reader_error c) = past_timeout c"
    and "errors_since n (reader_error c) = errors_since n c"
    and "disconnects_since n c \<le> disconnects_since n (reader_error c)"
    and "reader_alive c \<Longrightarrow> running c \<Longrightarrow> disconnects_since n (reader_error c) = 1"
  using assms
  by (auto simp: episode_inv_def reader_error_def emit_def
        errors_since_def disconnects_since_def past_timeout_def Let_def split: if_splits)

lemma reader_line_inv:
  assumes "episode_inv p t0 n c" and "line \<noteq> ''PONG''"
  shows "episode_inv p t0 n (reader_line c line now)"
    and "past_timeout (reader_line c line now) = past_timeout c"
    and "errors_since n (reader_line c line now) = errors_since n c"
    and "disconnects_since n (reader_line c line now) = disconnects_since n c"
    and "reader_alive (reader_line c line now) = reader_alive c"
  using assms
  by (auto simp: episode_inv_def reader_line_def process_line_def emit_def
        errors_since_def disconnects_since_def past_timeout_def Let_def split: if_splits)

lemma dispatch_inv:
  assumes "episode_inv p t0 n c" and "silent e"
  shows "episode_inv p t0 n (dispatch c e)"
    and "past_timeout c \<or> timed_out_tick t0 e \<Longrightarrow> past_timeout (dispatch c e)"
    and "\<not> is_read_error e \<Longrightarrow> disconnects_since n (dispatch c e) = disconnects_since n c"
    and "disconnects_since n c \<le> disconnects_since n (dispatch c e)"
    and "\<not> past_timeout c \<Longrightarrow> \<not> timed_out_tick t0 e \<Longrightarrow>
         \<not> past_timeout (dispatch c e) \<and> errors_since n (dispatch c e) = errors_since n c"
proof -
  note rs = run_scheduled_inv [OF assms(1)]
  show "episode_inv p t0 n (dispatch c e)"
    using assms rs(1,2) by (cases e) (simp_all add: ping_inv reader_error_inv reader_line_inv)
  show "past_timeout c \<or> timed_out_tick t0 e \<Longrightarrow> past_timeout (dispatch c e)"
  proof (cases e)
    case (Ping_timeout now)
    assume h: "past_timeout c \<or> timed_out_tick t0 e"
    show ?thesis
    proof (cases "past_timeout c")
      case True
      then have "\<not> running (run_scheduled c)" by (rule rs(3))
      then have "past_timeout (run_scheduled c)" by (simp add: past_timeout_def)
      then show ?thesis using ping_inv(3) [OF rs(1,2)] Ping_timeout by simp
    next
      case False
      with h Ping_timeout have "now - t0 > PONG_TIMEOUT_S" by simp
      then show ?thesis using ping_inv(3) [OF rs(1,2)] Ping_timeout by simp
    qed
  qed (use assms in \<open>simp_all add: reader_error_inv reader_line_inv\<close>)
  show "\<not> is_read_error e \<Longrightarrow> disconnects_since n (dispatch c e) = disconnects_since n c"
    using assms rs(1,2,5)
    by (cases e) (simp_all add: ping_inv reader_line_inv)
  show "disconnects_since n c \<le> disconnects_since n (dispatch c e)"
    using assms rs(1,2,5)
    by (cases e) (simp_all add: ping_inv reader_line_inv reader_error_inv)
  show "\<not> past_timeout c \<Longrightarrow> \<not> timed_out_tick t0 e \<Longrightarrow>
         \<not> past_timeout (dispatch c e) \<and> errors_since n (dispatch c e) = errors_since n c"
  proof (cases e)
    case (Ping_timeout now)
    assume h: "\<not> past_timeout c" "\<not> timed_out_tick t0 e"
    from h(1) have eq: "run_scheduled c = c" by (rule rs(4))
    from h Ping_timeout have "\<not> now - t0 > PONG_TIMEOUT_S" by simp
    from ping_inv(4) [OF assms(1) _ this h(1)] rs(2) eq Ping_timeout
    show ?thesis by (simp add: errors_since_def)
  qed (use assms in \<open>simp_all add: reader_error_inv reader_line_inv\<close>)
qed

lemma run_events_inv:
  "episode_inv p t0 n c \<Longrightarrow> list_all silent evs \<Longrightarrow>
   episode_inv p t0 n (run_events c evs)
   \<and> (past_timeout c \<or> list_ex (timed_out_tick t0) evs \<longrightarrow> past_timeout (run_events c evs))
   \<and> (\<not> list_ex is_read_error evs \<longrightarrow>
        disconnects_since n (run_events c evs) = disconnects_since n c)
   \<and> disconnects_since n c \<le> disconnects_since n (run_events c evs)
   \<and> (\<not> past_timeout c \<and> \<not> list_ex (timed_out_tick t0) evs \<longrightarrow>
        \<not> past_timeout (run_events c evs)
        \<and> errors_since n (run_events c evs) = errors_since n c)"
proof (induction evs arbitrary: c)
  case Nil
  then show ?case by simp
next
  case (Cons e evs)
  from Cons.prems have se: "silent e" and sr: "list_all silent evs" by simp_all
  note d = dispatch_inv [OF Cons.prems(1) se]
  note ih = Cons.IH [OF d(1) sr]
  show ?case
    using ih d(2,3,4,5) by (auto simp del: dispatch.simps)
qed


lemma run_events_append: "run_events c (xs @ ys) = run_events (run_events c xs) ys"
  by (induction xs arbitrary: c) simp_all

lemma dispatch_reader_alive:
  assumes "episode_inv p t0 n c" and "silent e" and "\<not> is_read_error e"
    and "\<not> past_timeout c" and "\<not> timed_out_tick t0 e"
  shows "reader_alive (dispatch c e) = reader_alive c"
proof (cases e)
  case (Ping_timeout now)
  from assms(4) have eq: "run_scheduled c = c" by (rule run_scheduled_inv(4) [OF assms(1)])
  from assms(1,4,5) Ping_timeout show ?thesis
    by (auto simp: eq episode_inv_def ping_timer_fires_def send_ping_def write_data_def
          past_timeout_def Let_def split: if_splits)
next
  case (Line_received line now)
  with assms show ?thesis by (simp add: reader_line_inv)
qed (use assms in simp_all)

lemma run_events_reader_alive:
  "episode_inv p t0 n c \<Longrightarrow> list_all silent evs \<Longrightarrow> \<not> list_ex is_read_error evs \<Longrightarrow>
   \<not> past_timeout c \<Longrightarrow> \<not> list_ex (timed_out_tick t0) evs \<Longrightarrow>
   reader_alive (run_events c evs) = reader_alive c"
proof (induction evs arbitrary: c)
  case Nil
  then show ?case by simp
next
  case (Cons e evs)
  from Cons.prems have se: "silent e" and sr: "list_all silent evs"
    and ne: "\<not> is_read_error e" and nr: "\<not> list_ex is_read_error evs"
    and nt: "\<not> timed_out_tick t0 e" and ntr: "\<not> list_ex (timed_out_tick t0) evs"
    by simp_all
  note d = dispatch_inv [OF Cons.prems(1) se]
  from d(5) [OF Cons.prems(4) nt] have np: "\<not> past_timeout (dispatch c e)" by simp
  from Cons.IH [OF d(1) sr nr np ntr]
    dispatch_reader_alive [OF Cons.prems(1) se ne Cons.prems(4) nt]
  show ?case by (simp del: dispatch.simps)
qed

lemma episode_closed:
  assumes "episode_inv p t0 n c" and "past_timeout c"
  shows "errors_since n (run_scheduled c) = [Error (''No response from '' @ p)]"
    and "\<not> is_connected (run_scheduled c)" and "\<not> running (run_scheduled c)"
    and "\<not> serial_open (run_scheduled c)"
    and "emitted (close_port (run_scheduled c)) = emitted (run_scheduled c)"
proof -
  note rs = run_scheduled_inv [OF assms(1)]
  from rs(3) [OF assms(2)] have nr: "\<not> running (run_scheduled c)" .
  with rs(1) show "errors_since n (run_scheduled c) = [Error (''No response from '' @ p)]"
    "\<not> is_connected (run_scheduled c)" "\<not> running (run_scheduled c)"
    "\<not> serial_open (run_scheduled c)"
    by (simp_all add: episode_inv_def)
  from rs(1) show "emitted (close_port (run_scheduled c)) = emitted (run_scheduled c)"
    by (simp add: episode_inv_def close_port_def Let_def)
qed

lemma send_ping_timed_out:
  "running c \<Longrightarrow> now - last_pong_time c > PONG_TIMEOUT_S \<Longrightarrow>
   send_ping c now =
     (write_data c (''PING'' @ [CHR 0x0A]))
       \<lparr>is_connected := False,
        emitted := emitted c @ [Error (''No response from '' @ port c)],
        scheduled := scheduled c + 1\<rparr>"
  by (simp add: send_ping_def write_data_def emit_def Let_def)

text \<open>
  When the reader thread fails on a read during the episode (the device is unplugged), it
  emits the disconnect, and the timeout then adds the error.
\<close>

lemma read_error_episode_emits_pair:
  "emitted (episode (opened new_connection ''COM3'' 115200 0)
              [Ping_timeout 2, Read_error, Ping_timeout 4, Ping_timeout 6])
     = [Disconnected, Error ''No response from COM3'']"
  by (simp add: episode_def opened_def open_port_def new_connection_def close_port_def
      write_data_def emit_def ping_timer_fires_def send_ping_def run_scheduled_def
      reader_error_def PONG_TIMEOUT_S_def Let_def)


text \<open>
  C3, as stated: over the timeout episode exactly one disconnect/error pair is emitted.
  Opening COM3 at time 0 and letting the ping timer fire at 2, 4 and 6 s with no PONG and
  no read failure, then calling \<^verbatim>\<open>close_port\<close>, emits one error and no disconnect signal:
  the link never became connected, and \<^verbatim>\<open>close_port\<close> emits \<^verbatim>\<open>disconnected\<close> only for a
  connected link.
\<close>

theorem heartbeat_timeout_emits_no_disconnect:
  "(let c = close_port (episode (opened new_connection ''COM3'' 115200 0)
                          [Ping_timeout 2, Ping_timeout 4, Ping_timeout 6])
    in emitted c = [Error ''No response from COM3'']
     \<and> length (filter is_error (emitted c)) = 1
     \<and> length (filter (\<lambda>sg. sg = Disconnected) (emitted c)) = 0)"
  by (simp add: episode_def opened_def open_port_def new_connection_def close_port_def
      write_data_def emit_def ping_timer_fires_def send_ping_def run_scheduled_def
      PONG_TIMEOUT_S_def Let_def)

text \<open>
  C3, amended. After a successful open at \<open>t0\<close>, in an episode of timer ticks, read failures
  and lines other than PONG: a ping tick more than 5 s after \<open>t0\<close> leaves the link
  not-connected, emits an error naming the port and posts a close for a later scheduler
  turn (when the handler returns the port is still open and running). Over an episode
  with such a tick exactly one error is emitted and at most one disconnect, the link ends
  closed, and a subsequent \<^verbatim>\<open>close_port\<close> emits nothing. No disconnect is emitted when the
  reader thread meets no read failure, and exactly one when it fails on a read before the
  timeout. While every tick is within 5 s of \<open>t0\<close> no error is emitted.
\<close>

theorem heartbeat_timeout_episode:
  assumes "c0 = opened c p b t0" and "scheduled c = 0"
  shows "(now - t0 > PONG_TIMEOUT_S \<longrightarrow>
            (let c1 = send_ping c0 now
             in \<not> is_connected c1
              \<and> emitted c1 = emitted c0 @ [Error (''No response from '' @ p)]
              \<and> scheduled c1 = 1 \<and> running c1 \<and> serial_open c1))
       \<and> (list_all silent evs \<and> list_ex (timed_out_tick t0) evs \<longrightarrow>
            (let c' = episode c0 evs; n = length (emitted c0)
             in errors_since n c' = [Error (''No response from '' @ p)]
              \<and> disconnects_since n c' \<le> 1
              \<and> \<not> is_connected c' \<and> \<not> running c' \<and> \<not> serial_open c'
              \<and> emitted (close_port c') = emitted c'))
       \<and> (list_all silent evs \<and> \<not> list_ex is_read_error evs \<longrightarrow>
            disconnects_since (length (emitted c0)) (episode c0 evs) = 0)
       \<and> (list_all silent (pre @ Read_error # post)
            \<and> \<not> list_ex (timed_out_tick t0) pre \<and> \<not> list_ex is_read_error pre \<longrightarrow>
            disconnects_since (length (emitted c0)) (episode c0 (pre @ Read_error # post)) = 1)
       \<and> (list_all silent evs \<and> \<not> list_ex (timed_out_tick t0) evs \<longrightarrow>
            errors_since (length (emitted c0)) (episode c0 evs) = [])"
proof -
  let ?n = "length (emitted c0)"
  have st: "running c0" "\<not> is_connected c0" "last_pong_time c0 = t0" "port c0 = p"
    "scheduled c0 = 0" "ping_timer_active c0" "serial_open c0" "reader_alive c0"
    using assms by (simp_all add: opened_state)
  have inv0: "episode_inv p t0 ?n c0"
    using opened_inv [OF assms(2), of p t0 b] assms(1) by simp
  have np0: "\<not> past_timeout c0" using st by (simp add: past_timeout_def)
  have d0: "disconnects_since ?n c0 = 0" "errors_since ?n c0 = []"
    by (simp_all add: disconnects_since_def errors_since_def)
  have one: "now - t0 > PONG_TIMEOUT_S \<longrightarrow>
            (let c1 = send_ping c0 now
             in \<not> is_connected c1
              \<and> emitted c1 = emitted c0 @ [Error (''No response from '' @ p)]
              \<and> scheduled c1 = 1 \<and> running c1 \<and> serial_open c1)"
    using st by (simp add: send_ping_timed_out write_data_def Let_def)
  have timeout: "list_all silent evs \<and> list_ex (timed_out_tick t0) evs \<longrightarrow>
            (let c' = episode c0 evs; n = length (emitted c0)
             in errors_since n c' = [Error (''No response from '' @ p)]
              \<and> disconnects_since n c' \<le> 1
              \<and> \<not> is_connected c' \<and> \<not> running c' \<and> \<not> serial_open c'
              \<and> emitted (close_port c') = emitted c')"
  proof
    assume h: "list_all silent evs \<and> list_ex (timed_out_tick t0) evs"
    then have sl: "list_all silent evs" and ex: "list_ex (timed_out_tick t0) evs" by simp_all
    note r = run_events_inv [OF inv0 sl]
    from r ex have inv: "episode_inv p t0 ?n (run_events c0 evs)"
      and past: "past_timeout (run_events c0 evs)" by simp_all
    note cl = episode_closed [OF inv past]
    note rs = run_scheduled_inv [OF inv]
    from rs(1) have "disconnects_since ?n (run_scheduled (run_events c0 evs)) \<le> 1"
      by (simp add: episode_inv_def)
    with cl show "let c' = episode c0 evs; n = length (emitted c0)
             in errors_since n c' = [Error (''No response from '' @ p)]
              \<and> disconnects_since n c' \<le> 1
              \<and> \<not> is_connected c' \<and> \<not> running c' \<and> \<not> serial_open c'
              \<and> emitted (close_port c') = emitted c'"
      by (simp add: episode_def Let_def)
  qed
  have quiet: "list_all silent evs \<and> \<not> list_ex is_read_error evs \<longrightarrow>
            disconnects_since ?n (episode c0 evs) = 0"
  proof
    assume h: "list_all silent evs \<and> \<not> list_ex is_read_error evs"
    then have sl: "list_all silent evs" by simp
    note r = run_events_inv [OF inv0 sl]
    from r h d0 have "disconnects_since ?n (run_events c0 evs) = 0" by simp
    moreover from r have inv: "episode_inv p t0 ?n (run_events c0 evs)" by simp
    ultimately show "disconnects_since ?n (episode c0 evs) = 0"
      using run_scheduled_inv(5) [OF inv] by (simp add: episode_def)
  qed
  have failed: "list_all silent (pre @ Read_error # post)
            \<and> \<not> list_ex (timed_out_tick t0) pre \<and> \<not> list_ex is_read_error pre \<longrightarrow>
            disconnects_since ?n (episode c0 (pre @ Read_error # post)) = 1"
  proof
    assume h: "list_all silent (pre @ Read_error # post)
            \<and> \<not> list_ex (timed_out_tick t0) pre \<and> \<not> list_ex is_read_error pre"
    then have sp: "list_all silent pre" and spost: "list_all silent post"
      and nt: "\<not> list_ex (timed_out_tick t0) pre" and nr: "\<not> list_ex is_read_error pre"
      by simp_all
    let ?c1 = "run_events c0 pre"
    note r1 = run_events_inv [OF inv0 sp]
    from r1 have inv1: "episode_inv p t0 ?n ?c1" by simp
    from r1 np0 nt have np1: "\<not> past_timeout ?c1" by simp
    then have run1: "running ?c1" by (simp add: past_timeout_def)
    have alive1: "reader_alive ?c1"
      using run_events_reader_alive [OF inv0 sp nr np0 nt] st(8) by simp
    let ?c2 = "reader_error ?c1"
    note re = reader_error_inv [OF inv1]
    from re(5) [OF alive1 run1] have d2: "disconnects_since ?n ?c2 = 1" .
    note r3 = run_events_inv [OF re(1) spost]
    from r3 have inv3: "episode_inv p t0 ?n (run_events ?c2 post)"
      and ge: "disconnects_since ?n ?c2 \<le> disconnects_since ?n (run_events ?c2 post)"
      by simp_all
    from inv3 have le: "disconnects_since ?n (run_events ?c2 post) \<le> 1"
      by (simp add: episode_inv_def)
    from d2 ge le have "disconnects_since ?n (run_events ?c2 post) = 1" by simp
    then show "disconnects_since ?n (episode c0 (pre @ Read_error # post)) = 1"
      using run_scheduled_inv(5) [OF inv3] by (simp add: episode_def run_events_append)
  qed
  have early: "list_all silent evs \<and> \<not> list_ex (timed_out_tick t0) evs \<longrightarrow>
            errors_since ?n (episode c0 evs) = []"
  proof
    assume h: "list_all silent evs \<and> \<not> list_ex (timed_out_tick t0) evs"
    then have sl: "list_all silent evs" by simp
    note r = run_events_inv [OF inv0 sl]
    from r h np0 d0 have np: "\<not> past_timeout (run_events c0 evs)"
      and e: "errors_since ?n (run_events c0 evs) = []" by simp_all
    from r have inv: "episode_inv p t0 ?n (run_events c0 evs)" by simp
    from run_scheduled_inv(4) [OF inv np] e
    show "errors_since ?n (episode c0 evs) = []" by (simp add: episode_def)
  qed
  from one timeout quiet failed early show ?thesis by blast
qed

theorem heartbeat_timeout_episode_witness:
  "(let c1 = send_ping (opened new_connection ''COM3'' 115200 0) 6
    in \<not> is_connected c1 \<and> emitted c1 = [Error ''No response from COM3'']
     \<and> scheduled c1 = 1 \<and> running c1 \<and> serial_open c1)
   \<and> (let c' = episode (opened new_connection ''COM3'' 115200 0)
                  [Ping_timeout 2, Line_received ''BTN|PRESS'' 3, Ping_timeout 4, Ping_timeout 6]
      in errors_since 0 c' = [Error ''No response from COM3'']
       \<and> disconnects_since 0 c' \<le> 1
       \<and> \<not> is_connected c' \<and> \<not> running c' \<and> \<not> serial_open c'
       \<and> emitted (close_port c') = emitted c')
   \<and> disconnects_since 0 (episode (opened new_connection ''COM3'' 115200 0)
                             [Ping_timeout 2, Ping_timeout 4, Ping_timeout 6]) = 0
   \<and> disconnects_since 0 (episode (opened new_connection ''COM3'' 115200 0)
                             [Ping_timeout 2, Read_error, Ping_timeout 4, Ping_timeout 6]) = 1
   \<and> errors_since 0 (episode (opened new_connection ''COM3'' 115200 0)
                        [Ping_timeout 2, Ping_timeout 4]) = []"
proof -
  let ?c0 = "opened new_connection ''COM3'' 115200 0"
  let ?press = "[Ping_timeout 2, Line_received ''BTN|PRESS'' 3, Ping_timeout 4, Ping_timeout 6]"
  let ?ticks = "[Ping_timeout 2, Ping_timeout 4, Ping_timeout 6]"
  have s0: "scheduled new_connection = 0" by (simp add: new_connection_def)
  have e0: "emitted ?c0 = []"
    by (simp add: opened_def open_port_def new_connection_def close_port_def write_data_def
        Let_def)
  have late: "(6::real) - 0 > PONG_TIMEOUT_S" by (simp add: PONG_TIMEOUT_S_def)
  have h2: "list_all silent ?press \<and> list_ex (timed_out_tick 0) ?press"
    by (simp add: PONG_TIMEOUT_S_def)
  have h3: "list_all silent ?ticks \<and> \<not> list_ex is_read_error ?ticks" by simp
  have h4: "list_all silent ([Ping_timeout 2] @ Read_error # [Ping_timeout 4, Ping_timeout 6])
            \<and> \<not> list_ex (timed_out_tick 0) [Ping_timeout 2]
            \<and> \<not> list_ex is_read_error [Ping_timeout 2]"
    by (simp add: PONG_TIMEOUT_S_def)
  have h5: "list_all silent [Ping_timeout 2, Ping_timeout 4]
            \<and> \<not> list_ex (timed_out_tick 0) [Ping_timeout 2, Ping_timeout 4]"
    by (simp add: PONG_TIMEOUT_S_def)
  note t = heartbeat_timeout_episode
             [where c = new_connection and p = "''COM3''" and b = 115200 and ?t0.0 = 0,
              OF refl s0]
  have a: "let c1 = send_ping ?c0 6
    in \<not> is_connected c1 \<and> emitted c1 = emitted ?c0 @ [Error (''No response from '' @ ''COM3'')]
     \<and> scheduled c1 = 1 \<and> running c1 \<and> serial_open c1"
    using t [where now = 6, THEN conjunct1, THEN mp, OF late] .
  have b: "let c' = episode ?c0 ?press; n = length (emitted ?c0)
             in errors_since n c' = [Error (''No response from '' @ ''COM3'')]
              \<and> disconnects_since n c' \<le> 1
              \<and> \<not> is_connected c' \<and> \<not> running c' \<and> \<not> serial_open c'
              \<and> emitted (close_port c') = emitted c'"
    using t [where evs = ?press, THEN conjunct2, THEN conjunct1, THEN mp, OF h2] .
  have c: "disconnects_since (length (emitted ?c0)) (episode ?c0 ?ticks) = 0"
    using t [where evs = ?ticks, THEN conjunct2, THEN conjunct2, THEN conjunct1, THEN mp, OF h3] .
  have d: "disconnects_since (length (emitted ?c0))
             (episode ?c0 ([Ping_timeout 2] @ Read_error # [Ping_timeout 4, Ping_timeout 6])) = 1"
    using t [where pre = "[Ping_timeout 2]" and post = "[Ping_timeout 4, Ping_timeout 6]",
             THEN conjunct2, THEN conjunct2, THEN conjunct2, THEN conjunct1, THEN mp, OF h4] .
  have e: "errors_since (length (emitted ?c0)) (episode ?c0 [Ping_timeout 2, Ping_timeout 4]) = []"
    using t [where evs = "[Ping_timeout 2, Ping_timeout 4]",
             THEN conjunct2, THEN conjunct2, THEN conjunct2, THEN conjunct2, THEN mp, OF h5] .
  from a b c d e show ?thesis by (simp add: e0 Let_def)
qed


section \<open>Properties of the spectrum analyzer\<close>

lemma py_int_clamped: "0 \<le> x \<Longrightarrow> x \<le> 12 \<Longrightarrow> 0 \<le> py_int x \<and> py_int x \<le> 12"
  by (simp add: py_int_def floor_le_iff)

lemma level_of_db_range: "0 \<le> level_of_db db \<and> level_of_db db \<le> 12"
  unfolding level_of_db_def by (rule py_int_clamped) simp_all

lemma band_level_range: "0 \<le> band_level mags e \<and> band_level mags e \<le> 12"
  by (cases e) (simp add: band_level_def Let_def level_of_db_range)

lemma get_levels_None_iff:
  "get_levels has_numpy rfft_abs a position_ms = None \<longleftrightarrow> \<not> has_numpy \<or> samples a = None"
  by (simp add: get_levels_def Let_def split: option.splits)

lemma get_levels_past_end:
  "has_numpy \<Longrightarrow> samples a = Some smp \<Longrightarrow> window_end a position_ms > int (length smp) \<Longrightarrow>
   get_levels has_numpy rfft_abs a position_ms = Some (replicate 12 0)"
  by (simp add: get_levels_def window_end_def Let_def NUM_BANDS_def)

lemma get_levels_range:
  "get_levels has_numpy rfft_abs a position_ms = Some levels \<Longrightarrow>
   l \<in> set levels \<Longrightarrow> 0 \<le> l \<and> l \<le> 12"
  by (auto simp: get_levels_def Let_def band_level_range split: if_splits option.splits)

lemma level_low: "db \<le> - 48 \<Longrightarrow> level_of_db db = 0"
proof -
  assume "db \<le> - 48"
  then have "(db + 48) * 12 / 45 \<le> 0" by simp
  then have "max 0 (min 12 ((db + 48) * 12 / 45)) = 0" by simp
  then show ?thesis by (simp add: level_of_db_def py_int_def)
qed

lemma level_high: "db \<ge> - 3 \<Longrightarrow> level_of_db db = 12"
proof -
  assume "db \<ge> - 3"
  then have "(db + 48) * 12 / 45 \<ge> 12" by simp
  then have "max 0 (min 12 ((db + 48) * 12 / 45)) = 12" by simp
  then show ?thesis by (simp add: level_of_db_def py_int_def)
qed

lemma level_mid: "- 48 \<le> db \<Longrightarrow> db \<le> - 3 \<Longrightarrow> level_of_db db = \<lfloor>(db + 48) * 12 / 45\<rfloor>"
proof -
  assume "- 48 \<le> db" "db \<le> - 3"
  then have "0 \<le> (db + 48) * 12 / 45" "(db + 48) * 12 / 45 \<le> 12" by simp_all
  then have "max 0 (min 12 ((db + 48) * 12 / 45)) = (db + 48) * 12 / 45"
    "0 \<le> max 0 (min 12 ((db + 48) * 12 / 45))" by simp_all
  then show ?thesis unfolding level_of_db_def py_int_def by simp
qed

text \<open>
  C4. Once decoding has completed (and numpy is present), \<^verbatim>\<open>get_levels(position_ms)\<close> returns
  twelve zero levels for every position whose analysis window ends past the available
  samples; it returns \<open>None\<close> exactly when numpy is absent or no decoded samples are held.
\<close>

theorem get_levels_unavailable_iff:
  "(get_levels has_numpy rfft_abs a position_ms = None \<longleftrightarrow> \<not> has_numpy \<or> samples a = None)
   \<and> (has_numpy \<and> samples a = Some smp \<and> window_end a position_ms > int (length smp)
        \<longrightarrow> get_levels has_numpy rfft_abs a position_ms = Some (replicate 12 0))"
  using get_levels_None_iff [of has_numpy rfft_abs a position_ms]
    get_levels_past_end [of has_numpy a smp position_ms rfft_abs]
  by blast

theorem get_levels_unavailable_iff_witness:
  "get_levels True (\<lambda>chunk. [])
     \<lparr>samples = Some [0, 0, 0], sample_rate = 44100, band_edges = [(1, 2)], window = []\<rparr> 5000
   = Some [0, 0, 0, 0, 0, 0, 0, 0, 0, 0, 0, 0]"
proof -
  let ?a = "\<lparr>samples = Some [0, 0, 0], sample_rate = 44100, band_edges = [(1, 2)],
             window = []\<rparr>"
  have past: "True \<and> samples ?a = Some [0, 0, 0]
              \<and> window_end ?a 5000 > int (length [0, 0, 0 :: real])"
    by (simp add: window_end_def py_int_def FFT_SIZE_def)
  have "get_levels True (\<lambda>chunk. []) ?a 5000 = Some (replicate 12 0)"
    using get_levels_unavailable_iff
            [where has_numpy = True and a = ?a and smp = "[0, 0, 0]" and position_ms = 5000,
             THEN conjunct2, THEN mp, OF past] .
  then show ?thesis by (simp add: numeral_eq_Suc)
qed

lemma get_levels_inside:
  assumes "has_numpy" "samples a = Some smp" "window_end a position_ms \<le> int (length smp)"
  shows "get_levels has_numpy rfft_abs a position_ms =
           Some (map (\<lambda>(low_bin, high_bin).
                   let fft_mag = window_spectrum rfft_abs a smp position_ms;
                       hi = min high_bin (length fft_mag)
                   in if low_bin \<ge> hi then 0
                      else level_of_db (db_of_rms (band_rms fft_mag low_bin hi)))
                 (band_edges a))"
proof -
  have bl: "band_level fm = (\<lambda>(low_bin, high_bin).
                   let hi = min high_bin (length fm)
                   in if low_bin \<ge> hi then 0
                      else level_of_db (db_of_rms (band_rms fm low_bin hi)))" for fm
    by (rule ext) (simp add: band_level_def Let_def split: prod.splits)
  have "\<not> window_end a position_ms > int (length smp)" using assms(3) by simp
  then show ?thesis
    using assms(1,2)
    unfolding get_levels_def window_end_def window_spectrum_def bl
    by (simp add: Let_def)
qed

lemma level_of_rms_one: "level_of_db (db_of_rms 1) = 12"
proof -
  have "(1::real) \<le> 1 + 1 / 10 ^ 10" by simp
  then have "0 \<le> log 10 (1 + 1 / 10 ^ 10)"
    by (subst zero_le_log_cancel_iff) simp_all
  then have "db_of_rms 1 \<ge> - 3" unfolding db_of_rms_def by linarith
  then show ?thesis by (rule level_high)
qed

lemma level_of_rms_mag: "level_of_db (db_of_rms example_mag) = 7"
proof -
  have "example_mag + 1 / 10 ^ 10 = 1 / 10" by (simp add: example_mag_def)
  then have "db_of_rms example_mag = 20 * log 10 (1 / 10)" by (simp only: db_of_rms_def)
  also have "log 10 (1 / 10 :: real) = - log 10 10" by (rule log_recip)
  also have "log 10 (10 :: real) = 1" by simp
  finally have db: "db_of_rms example_mag = - 20" by simp
  have "level_of_db (- 20) = \<lfloor>(- 20 + 48) * 12 / 45 :: real\<rfloor>"
    by (rule level_mid) simp_all
  also have "\<dots> = 7" by simp
  finally show ?thesis by (simp only: db)
qed

lemma level_of_rms_zero: "level_of_db (db_of_rms 0) = 0"
proof -
  have "log 10 (1 / 10 ^ 10 :: real) = - log 10 (10 ^ 10)" by (rule log_recip)
  also have "log 10 (10 ^ 10 :: real) = 10" using log_pow_cancel [of 10 10] by simp
  finally have "log 10 (0 + 1 / 10 ^ 10 :: real) = - 10" by simp
  then have "db_of_rms 0 = - 200" by (simp only: db_of_rms_def)
  then have "db_of_rms 0 \<le> - 48" by simp
  then show ?thesis by (rule level_low)
qed

lemma example_spectrum:
  "window_spectrum example_rfft_abs example_analyzer (replicate 2048 0) 0
     = [0, 1, example_mag, 0]"
  by (simp add: window_spectrum_def example_rfft_abs_def Let_def FFT_SIZE_def)

lemma band_rms_one_bin:
  "band_rms [m0, m1, m2, m3] (Suc 0) 2 = \<bar>m1\<bar>"
  "band_rms [m0, m1, m2, m3] 2 3 = \<bar>m2\<bar>"
  "band_rms [m0, m1, m2, m3] 3 4 = \<bar>m3\<bar>"
  by (simp_all add: band_rms_def Let_def numeral_eq_Suc)

lemma example_mag_nonneg: "\<bar>example_mag\<bar> = example_mag"
  by (simp add: example_mag_def)

lemma example_levels:
  "map (\<lambda>(low_bin, high_bin).
          let fft_mag = window_spectrum example_rfft_abs example_analyzer (replicate 2048 0) 0;
              hi = min high_bin (length fft_mag)
          in if low_bin \<ge> hi then 0
             else level_of_db (db_of_rms (band_rms fft_mag low_bin hi)))
       (band_edges example_analyzer) = [12, 7, 0]"
proof -
  have be: "band_edges example_analyzer = [(1, 2), (2, 3), (3, 4)]"
    by (simp add: example_analyzer_def)
  show ?thesis
    by (simp only: be example_spectrum)
       (simp add: Let_def band_rms_def numeral_eq_Suc
          example_mag_nonneg level_of_rms_one level_of_rms_mag level_of_rms_zero)
qed

lemma example_inside:
  "True \<and> samples example_analyzer = Some (replicate 2048 0)
   \<and> window_end example_analyzer 0 \<le> int (length (replicate 2048 (0::real)))"
  by (simp add: example_analyzer_def window_end_def py_int_def FFT_SIZE_def)

text \<open>
  C7. For each band the level \<^verbatim>\<open>get_levels\<close> returns is the clamp to \<open>[0, 12]\<close>, then
  truncated to an integer, of \<open>(db + 48) * 12 / 45\<close> with \<open>db = 20 * log10(rms + 1e-10)\<close> and
  \<open>rms\<close> the root mean square of the scaled magnitudes of the band (a band with no bin
  inside the spectrum gets 0; numpy's transform of 2048 samples has 1025 bins, more than
  the band table of the code reaches, so no band of the code is empty). The
  mapping sends -48 dB to 0 and -3 dB to 12, is \<open>\<lfloor>(db + 48) * 12 / 45\<rfloor>\<close> in between and
  constant outside, and every level \<^verbatim>\<open>get_levels\<close> returns lies in \<open>[0, 12]\<close>.
\<close>

theorem spectrum_level_mapping:
  "level_of_db db = py_int (max 0 (min 12 ((db + 48) * 12 / 45)))
   \<and> db_of_rms rms = 20 * log 10 (rms + 1 / 10 ^ 10)
   \<and> 0 \<le> level_of_db db \<and> level_of_db db \<le> 12
   \<and> level_of_db (- 48) = 0 \<and> level_of_db (- 3) = 12
   \<and> (db \<le> - 48 \<longrightarrow> level_of_db db = 0)
   \<and> (db \<ge> - 3 \<longrightarrow> level_of_db db = 12)
   \<and> (- 48 \<le> db \<and> db \<le> - 3 \<longrightarrow> level_of_db db = \<lfloor>(db + 48) * 12 / 45\<rfloor>)
   \<and> (has_numpy \<and> samples a = Some smp \<and> window_end a position_ms \<le> int (length smp) \<longrightarrow>
        get_levels has_numpy rfft_abs a position_ms =
          Some (map (\<lambda>(low_bin, high_bin).
                  let fft_mag = window_spectrum rfft_abs a smp position_ms;
                      hi = min high_bin (length fft_mag)
                  in if low_bin \<ge> hi then 0
                     else level_of_db (db_of_rms (band_rms fft_mag low_bin hi)))
                (band_edges a)))
   \<and> (get_levels has_numpy rfft_abs a position_ms = Some levels \<longrightarrow>
        (\<forall>l \<in> set levels. 0 \<le> l \<and> l \<le> 12))
   \<and> band_rms mags lo up =
       sqrt (sum_list (map (\<lambda>m. m ^ 2) (take (up - lo) (drop lo mags)))
             / real (length (take (up - lo) (drop lo mags))))"
proof -
  have d0: "band_rms mags lo up =
       sqrt (sum_list (map (\<lambda>m. m ^ 2) (take (up - lo) (drop lo mags)))
             / real (length (take (up - lo) (drop lo mags))))"
    by (simp add: band_rms_def Let_def)
  have d1: "level_of_db db = py_int (max 0 (min 12 ((db + 48) * 12 / 45)))"
    by (simp only: level_of_db_def)
  have d2: "db_of_rms rms = 20 * log 10 (rms + 1 / 10 ^ 10)"
    by (simp only: db_of_rms_def)
  have inside: "has_numpy \<and> samples a = Some smp
        \<and> window_end a position_ms \<le> int (length smp) \<longrightarrow>
        get_levels has_numpy rfft_abs a position_ms =
          Some (map (\<lambda>(low_bin, high_bin).
                  let fft_mag = window_spectrum rfft_abs a smp position_ms;
                      hi = min high_bin (length fft_mag)
                  in if low_bin \<ge> hi then 0
                     else level_of_db (db_of_rms (band_rms fft_mag low_bin hi)))
                (band_edges a))"
    using get_levels_inside [of has_numpy a smp position_ms rfft_abs] by blast
  have lv: "get_levels has_numpy rfft_abs a position_ms = Some levels \<longrightarrow>
        (\<forall>l \<in> set levels. 0 \<le> l \<and> l \<le> 12)"
    using get_levels_range by blast
  have ends: "level_of_db (- 48) = 0" "level_of_db (- 3) = 12"
    by (simp_all add: level_low level_high)
  from d0 d1 d2 inside lv ends level_of_db_range [of db] level_low [of db] level_high [of db]
    level_mid [of db]
  show ?thesis by blast
qed

theorem spectrum_level_mapping_witness:
  "level_of_db (- 60) = 0 \<and> level_of_db 0 = 12 \<and> level_of_db (- 51 / 2) = 6
   \<and> get_levels True example_rfft_abs example_analyzer 0 = Some [12, 7, 0]
   \<and> list_all (\<lambda>l. 0 \<le> l \<and> l \<le> 12)
        (the (get_levels True example_rfft_abs example_analyzer 0))"
proof -
  have h1: "(- 60 :: real) \<le> - 48" by simp
  have h2: "(0 :: real) \<ge> - 3" by simp
  have h3: "- 48 \<le> (- 51 / 2 :: real) \<and> (- 51 / 2 :: real) \<le> - 3" by simp
  have lo: "level_of_db (- 60) = 0"
    using spectrum_level_mapping
            [where db = "- 60", THEN conjunct2, THEN conjunct2, THEN conjunct2, THEN conjunct2, THEN conjunct2, THEN conjunct2, THEN conjunct1, THEN mp, OF h1] .
  have hi: "level_of_db 0 = 12"
    using spectrum_level_mapping
            [where db = 0, THEN conjunct2, THEN conjunct2, THEN conjunct2, THEN conjunct2, THEN conjunct2, THEN conjunct2, THEN conjunct2, THEN conjunct1, THEN mp, OF h2] .
  have "level_of_db (- 51 / 2) = \<lfloor>(- 51 / 2 + 48) * 12 / 45 :: real\<rfloor>"
    using spectrum_level_mapping
            [where db = "- 51 / 2", THEN conjunct2, THEN conjunct2, THEN conjunct2, THEN conjunct2, THEN conjunct2, THEN conjunct2, THEN conjunct2, THEN conjunct2, THEN conjunct1, THEN mp, OF h3] .
  also have "\<dots> = 6" by simp
  finally have mid: "level_of_db (- 51 / 2) = 6" .
  have run: "get_levels True example_rfft_abs example_analyzer 0 = Some [12, 7, 0]"
    using spectrum_level_mapping
            [where has_numpy = True and a = example_analyzer and smp = "replicate 2048 0"
               and position_ms = 0 and rfft_abs = example_rfft_abs,
             THEN conjunct2, THEN conjunct2, THEN conjunct2, THEN conjunct2, THEN conjunct2, THEN conjunct2, THEN conjunct2, THEN conjunct2, THEN conjunct2, THEN conjunct1, THEN mp, OF example_inside]
    by (simp only: example_levels)
  have rng: "\<forall>l \<in> set [12, 7, 0 :: int]. 0 \<le> l \<and> l \<le> 12"
    using spectrum_level_mapping
            [where has_numpy = True and a = example_analyzer and position_ms = 0
               and rfft_abs = example_rfft_abs and levels = "[12, 7, 0]",
             THEN conjunct2, THEN conjunct2, THEN conjunct2, THEN conjunct2, THEN conjunct2, THEN conjunct2, THEN conjunct2, THEN conjunct2, THEN conjunct2, THEN conjunct2, THEN conjunct1, THEN mp, OF run] .
  from rng have all: "list_all (\<lambda>l. 0 \<le> l \<and> l \<le> 12)
        (the (get_levels True example_rfft_abs example_analyzer 0))"
    by (simp only: run option.sel list_all_iff)
  from lo hi mid run all show ?thesis by blast
qed

section \<open>Properties of the equalizer line\<close>

declare str_nat.simps [simp del]

lemma split_on_nonempty: "split_on c xs \<noteq> []"
  by (induction xs) (auto split: list.splits)

lemma split_on_no_sep: "c \<notin> set f \<Longrightarrow> split_on c f = [f]"
  by (induction f) auto

lemma split_on_append: "c \<notin> set f \<Longrightarrow> split_on c (f @ c # rest) = f # split_on c rest"
  by (induction f) auto

lemma split_on_join:
  "fs \<noteq> [] \<Longrightarrow> \<forall>f \<in> set fs. c \<notin> set f \<Longrightarrow> split_on c (join_str [c] fs) = fs"
  by (induction "[c]" fs rule: join_str.induct) (auto simp: split_on_no_sep split_on_append)

lemma parse_digits_snoc:
  "parse_digits (xs @ [ch]) acc =
     (case parse_digits xs acc of None \<Rightarrow> None
      | Some v \<Rightarrow> if is_digit ch then Some (10 * v + (of_char ch - 48)) else None)"
  by (induction xs arbitrary: acc) auto

lemma of_char_digit_char: "d < 10 \<Longrightarrow> (of_char (digit_char d) :: nat) = 48 + d"
  by (simp add: digit_char_def)

lemma digit_char_props:
  assumes "d < 10"
  shows "is_digit (digit_char d)" "(of_char (digit_char d) :: nat) - 48 = d"
    "digit_char d \<noteq> CHR '',''" "digit_char d \<noteq> CHR ''-''"
proof -
  note oc = of_char_digit_char [OF assms]
  show "is_digit (digit_char d)" using assms by (simp add: is_digit_def oc)
  show "(of_char (digit_char d) :: nat) - 48 = d" by (simp add: oc)
  show "digit_char d \<noteq> CHR '',''"
  proof
    assume "digit_char d = CHR '',''"
    then have "(of_char (digit_char d) :: nat) = of_char CHR '',''" by simp
    with oc show False by simp
  qed
  show "digit_char d \<noteq> CHR ''-''"
  proof
    assume "digit_char d = CHR ''-''"
    then have "(of_char (digit_char d) :: nat) = of_char CHR ''-''" by simp
    with oc show False by simp
  qed
qed

lemma str_nat_chars: "ch \<in> set (str_nat n) \<Longrightarrow> ch \<noteq> CHR '','' \<and> ch \<noteq> CHR ''-''"
proof (induction n rule: str_nat.induct)
  case (1 n)
  show ?case
  proof (cases "n < 10")
    case True
    with "1.prems" show ?thesis by (auto simp: str_nat.simps [of n] digit_char_props)
  next
    case False
    have "n mod 10 < 10" by simp
    with False "1.prems" "1.IH" show ?thesis
      by (auto simp: str_nat.simps [of n] digit_char_props)
  qed
qed

lemma str_nat_nonempty: "str_nat n \<noteq> []"
  by (subst str_nat.simps) simp

lemma parse_digits_str_nat: "parse_digits (str_nat n) 0 = Some n"
proof (induction n rule: str_nat.induct)
  case (1 n)
  show ?case
  proof (cases "n < 10")
    case True
    then show ?thesis by (simp add: str_nat.simps [of n] digit_char_props)
  next
    case False
    have m: "n mod 10 < 10" by simp
    from False "1.IH" have ih: "parse_digits (str_nat (n div 10)) 0 = Some (n div 10)" by simp
    from False have "str_nat n = str_nat (n div 10) @ [digit_char (n mod 10)]"
      by (simp add: str_nat.simps [of n])
    then show ?thesis
      by (simp add: parse_digits_snoc ih digit_char_props [OF m])
  qed
qed

lemma parse_int_str_int: "0 \<le> v \<Longrightarrow> parse_int (str_int v) = Some v"
proof -
  assume v: "0 \<le> v"
  obtain ch rest where sn: "str_nat (nat v) = ch # rest"
    using str_nat_nonempty [of "nat v"] by (cases "str_nat (nat v)") auto
  have "ch \<in> set (str_nat (nat v))" by (simp add: sn)
  then have "ch \<noteq> CHR ''-''" using str_nat_chars by blast
  then have "parse_int (ch # rest) = map_option int (parse_digits (ch # rest) 0)"
    by (simp add: parse_int_def)
  with v show ?thesis
    by (simp add: str_int_def sn [symmetric] parse_digits_str_nat)
qed

lemma str_int_no_comma: "0 \<le> v \<Longrightarrow> CHR '','' \<notin> set (str_int v)"
  using str_nat_chars by (auto simp: str_int_def)

lemma sequence_options_map_Some: "sequence_options (map Some xs) = Some xs"
  by (induction xs) auto

lemma parse_fields:
  "map parse_int (map (\<lambda>v. str_int (max 0 (min 12 v))) levels)
     = map Some (map (\<lambda>v. max 0 (min 12 v)) levels)"
  by (induction levels) (simp_all add: parse_int_str_int)

lemma join_str_nonempty:
  "fs \<noteq> [] \<Longrightarrow> \<forall>f \<in> set fs. f \<noteq> [] \<Longrightarrow> join_str sep fs \<noteq> []"
  by (induction sep fs rule: join_str.induct) auto

lemma str_int_nonempty: "str_int v \<noteq> []"
  by (simp add: str_int_def str_nat_nonempty)

lemma parse_send_equalizer:
  "parse_equalizer_line (send_equalizer levels) = Some (map (\<lambda>v. max 0 (min 12 v)) levels)"
proof (cases "levels = []")
  case True
  then show ?thesis
    by (simp add: parse_equalizer_line_def send_equalizer_def payload_fields_def)
next
  case False
  let ?fields = "map (\<lambda>v. str_int (max 0 (min 12 v))) levels"
  have ne: "?fields \<noteq> []" using False by simp
  have nc: "\<forall>f \<in> set ?fields. CHR '','' \<notin> set f"
    by (auto simp: str_int_no_comma)
  have sp: "split_on CHR '','' (join_str '','' ?fields) = ?fields"
    using split_on_join [OF ne nc] .
  have "\<forall>f \<in> set ?fields. f \<noteq> []" by (auto simp: str_int_nonempty)
  then have pne: "join_str '','' ?fields \<noteq> []"
    using join_str_nonempty [OF ne] by blast
  have "parse_equalizer_line (send_equalizer levels)
          = sequence_options (map parse_int (split_on CHR '','' (join_str '','' ?fields)))"
    using pne
    by (simp add: parse_equalizer_line_def send_equalizer_def payload_fields_def Let_def
          butlast_append)
  then show ?thesis
    by (simp only: sp parse_fields sequence_options_map_Some)
qed

text \<open>
  C6. For every integer list, \<^verbatim>\<open>send_equalizer\<close> writes \<^verbatim>\<open>EQ|\<close>, the values clamped to
  \<open>[0, 12]\<close> in decimal joined by commas, and the line terminator; splitting the payload
  on commas and parsing the integers gives back exactly the clamped sequence, so encoding
  then parsing is the identity on lists whose elements lie in \<open>[0, 12]\<close>.
\<close>

theorem send_equalizer_round_trip:
  "send_equalizer levels =
     ''EQ|'' @ join_str '','' (map (\<lambda>v. str_int (max 0 (min 12 v))) levels) @ [CHR 0x0A]
   \<and> parse_equalizer_line (send_equalizer levels)
       = Some (map (\<lambda>v. max 0 (min 12 v)) levels)
   \<and> ((\<forall>v \<in> set levels. 0 \<le> v \<and> v \<le> 12) \<longrightarrow>
        parse_equalizer_line (send_equalizer levels) = Some levels)"
proof -
  have enc: "send_equalizer levels =
           ''EQ|'' @ join_str '','' (map (\<lambda>v. str_int (max 0 (min 12 v))) levels) @ [CHR 0x0A]"
    by (simp add: send_equalizer_def Let_def)
  note rt = parse_send_equalizer [of levels]
  have idm: "(\<forall>v \<in> set levels. 0 \<le> v \<and> v \<le> 12) \<longrightarrow>
            parse_equalizer_line (send_equalizer levels) = Some levels"
  proof
    assume "\<forall>v \<in> set levels. 0 \<le> v \<and> v \<le> 12"
    then have "map (\<lambda>v. max 0 (min 12 v)) levels = levels"
      by (induction levels) auto
    with rt show "parse_equalizer_line (send_equalizer levels) = Some levels" by simp
  qed
  from enc rt idm show ?thesis by blast
qed

theorem send_equalizer_round_trip_witness:
  "send_equalizer [0, 12, 6, - 4, 99] = ''EQ|0,12,6,0,12'' @ [CHR 0x0A]
   \<and> parse_equalizer_line (send_equalizer [0, 12, 6, - 4, 99]) = Some [0, 12, 6, 0, 12]
   \<and> parse_equalizer_line (send_equalizer [0, 12, 6, 3, 1, 9, 12, 0, 4, 5, 11, 2])
       = Some [0, 12, 6, 3, 1, 9, 12, 0, 4, 5, 11, 2]"
proof -
  let ?twelve = "[0, 12, 6, 3, 1, 9, 12, 0, 4, 5, 11, 2 :: int]"
  have rng: "\<forall>v \<in> set ?twelve. 0 \<le> v \<and> v \<le> 12" by simp
  have e: "send_equalizer [0, 12, 6, - 4, 99] = ''EQ|0,12,6,0,12'' @ [CHR 0x0A]"
    by code_simp
  have a: "parse_equalizer_line (send_equalizer [0, 12, 6, - 4, 99]) = Some [0, 12, 6, 0, 12]"
    using send_equalizer_round_trip [of "[0, 12, 6, - 4, 99]", THEN conjunct2, THEN conjunct1]
    by simp
  have b: "parse_equalizer_line (send_equalizer ?twelve) = Some ?twelve"
    using send_equalizer_round_trip
            [of ?twelve, THEN conjunct2, THEN conjunct2, THEN mp, OF rng] .
  from e a b show ?thesis by blast
qed

section \<open>Properties of the word wrap\<close>

declare word_wrap_loop.simps [simp del]


lemma scan_spaces_none:
  "\<forall>i \<in> set idxs. tx ! nat i \<noteq> CHR '' '' \<Longrightarrow> scan_spaces tx idxs ls = ls"
  by (induction idxs arbitrary: ls) auto

lemma scan_spaces_append:
  "scan_spaces tx (xs @ ys) ls = scan_spaces tx ys (scan_spaces tx xs ls)"
  by (induction xs arbitrary: ls) auto

lemma scan_spaces_result:
  "scan_spaces tx idxs ls = ls \<or>
   (scan_spaces tx idxs ls \<in> set idxs \<and> tx ! nat (scan_spaces tx idxs ls) = CHR '' '')"
proof (induction idxs arbitrary: ls)
  case Nil
  then show ?case by simp
next
  case (Cons i rest)
  from Cons.IH [of "if tx ! nat i = CHR '' '' then i else ls"]
  show ?case by (auto split: if_splits)
qed

lemma scan_spaces_last:
  assumes "a \<le> s" "s \<le> b" "tx ! nat s = CHR '' ''"
    and "\<forall>j. s < j \<and> j \<le> b \<longrightarrow> tx ! nat j \<noteq> CHR '' ''"
  shows "scan_spaces tx [a..b] ls = s"
proof -
  have split: "[a..b] = [a..s - 1] @ s # [s + 1..b]"
    using assms(1,2) by (rule upto_split3)
  have tail: "\<forall>i \<in> set [s + 1..b]. tx ! nat i \<noteq> CHR '' ''"
    using assms(4) by auto
  show ?thesis
    by (simp add: split scan_spaces_append assms(3) scan_spaces_none [OF tail])
qed


lemma py_slice_nonneg:
  "0 \<le> a \<Longrightarrow> a \<le> b \<Longrightarrow> b \<le> int (length tx) \<Longrightarrow>
   py_slice tx a b = take (nat (b - a)) (drop (nat a) tx)"
proof -
  assume a: "0 \<le> a" "a \<le> b" "b \<le> int (length tx)"
  then have na: "nat a \<le> length tx" "nat b \<le> length tx" by linarith+
  from a na show ?thesis
    by (simp add: py_slice_def slice_bound_def min_absorb1 nat_diff_distrib)
qed

lemma py_slice_from_nonneg:
  "0 \<le> a \<Longrightarrow> a \<le> int (length tx) \<Longrightarrow> py_slice_from tx a = drop (nat a) tx"
proof -
  assume a: "0 \<le> a" "a \<le> int (length tx)"
  then have na: "nat a \<le> length tx" by linarith
  from a na show ?thesis
    by (simp add: py_slice_from_def slice_bound_def min_absorb1)
qed


lemma word_wrap_loop_final:
  "0 \<le> pos \<Longrightarrow> pos < int (length tx) \<Longrightarrow> length out < 32 \<Longrightarrow>
   int (length tx) - pos \<le> cpl \<Longrightarrow>
   word_wrap_loop tx cpl pos out = out @ [drop (nat pos) tx]"
  by (subst word_wrap_loop.simps) (simp add: Let_def py_slice_from_nonneg)

lemma word_wrap_loop_soft:
  assumes "0 \<le> pos" "length out < 32" "int (length tx) - pos > cpl"
    and "pos < s" "s < pos + cpl" "tx ! nat s = CHR '' ''"
    and "\<forall>j. s < j \<and> j < pos + cpl \<longrightarrow> tx ! nat j \<noteq> CHR '' ''"
  shows "word_wrap_loop tx cpl pos out =
           word_wrap_loop tx cpl (s + 1) (out @ [take (nat (s - pos)) (drop (nat pos) tx)])"
proof -
  have m: "min (pos + cpl) (int (length tx)) = pos + cpl" using assms(3) by simp
  have after: "\<forall>j. s < j \<and> j \<le> pos + cpl - 1 \<longrightarrow> tx ! nat j \<noteq> CHR '' ''"
    using assms(7) by auto
  have sc: "scan_spaces tx [pos..pos + cpl - 1] (- 1) = s"
    using scan_spaces_last [of pos s "pos + cpl - 1" tx "- 1"] assms(4,5,6) after by simp
  have sl: "py_slice tx pos s = take (nat (s - pos)) (drop (nat pos) tx)"
    using assms by (intro py_slice_nonneg) auto
  show ?thesis
    using assms(1-5)
    by (subst word_wrap_loop.simps) (simp add: Let_def m sc sl)
qed

lemma word_wrap_loop_hard:
  assumes "0 \<le> pos" "length out < 32" "int (length tx) - pos > cpl" "1 \<le> cpl"
    and "\<forall>j. pos < j \<and> j < pos + cpl \<longrightarrow> tx ! nat j \<noteq> CHR '' ''"
  shows "word_wrap_loop tx cpl pos out =
           word_wrap_loop tx cpl (pos + cpl) (out @ [take (nat cpl) (drop (nat pos) tx)])"
proof -
  have m: "min (pos + cpl) (int (length tx)) = pos + cpl" using assms(3) by simp
  let ?r = "scan_spaces tx [pos..pos + cpl - 1] (- 1)"
  have "?r = - 1 \<or> (?r \<in> set [pos..pos + cpl - 1] \<and> tx ! nat ?r = CHR '' '')"
    by (rule scan_spaces_result)
  then have notgt: "\<not> ?r > pos"
    using assms(1,5) by auto
  have sl: "py_slice tx pos (pos + cpl) = take (nat cpl) (drop (nat pos) tx)"
    using py_slice_nonneg [of pos "pos + cpl" tx] assms by simp
  show ?thesis
    using assms(1-4) notgt
    by (subst word_wrap_loop.simps) (simp add: Let_def m sl)
qed








text \<open>
  C5, as stated: each line breaks at the last space within the budget, and is broken at
  the character boundary only when no space lies within the budget. In \<open>" abc"\<close> wrapped at
  2 characters the budget of the first line holds a space (its first character), yet the
  line is broken at the character boundary and the space is emitted.
\<close>

theorem word_wrap_leading_space_hard_break:
  "'' abc'' ! 0 = CHR '' '' \<and> word_wrap '' abc'' 2 = ['' a'', ''bc'']"
  by code_simp

text \<open>
  C5, amended. While fewer than 32 lines have been produced, one step of the wrap from
  position \<open>pos\<close> does the following. If at most \<open>chars_per_line\<close> characters remain, they
  form the last line. Otherwise, if \<open>s\<close> is the last space among the \<open>chars_per_line\<close>
  characters from \<open>pos\<close> other than the first of them, the line is the characters from
  \<open>pos\<close> up to \<open>s\<close>, and the wrap continues after the space, which is not emitted; if there
  is no such space, the line is the next \<open>chars_per_line\<close> characters. The content height
  is the number of lines times the cell height, with \<open>chars_per_line\<close> the floor of canvas
  width over cell width. Forty \<open>x\<close> at 20 per line give two lines of 20 and lose nothing.
\<close>

theorem word_wrap_greedy_step:
  assumes "0 \<le> pos" and "pos < int (length tx)" and "length out < 32"
  shows "(int (length tx) - pos \<le> cpl \<longrightarrow>
            word_wrap_loop tx cpl pos out = out @ [drop (nat pos) tx])
       \<and> (int (length tx) - pos > cpl \<and> pos < s \<and> s < pos + cpl \<and> tx ! nat s = CHR '' ''
            \<and> (\<forall>j. s < j \<and> j < pos + cpl \<longrightarrow> tx ! nat j \<noteq> CHR '' '') \<longrightarrow>
            word_wrap_loop tx cpl pos out =
              word_wrap_loop tx cpl (s + 1) (out @ [take (nat (s - pos)) (drop (nat pos) tx)]))
       \<and> (int (length tx) - pos > cpl \<and> 1 \<le> cpl
            \<and> (\<forall>j. pos < j \<and> j < pos + cpl \<longrightarrow> tx ! nat j \<noteq> CHR '' '') \<longrightarrow>
            word_wrap_loop tx cpl pos out =
              word_wrap_loop tx cpl (pos + cpl) (out @ [take (nat cpl) (drop (nat pos) tx)]))
       \<and> total_lyric_height (paint_lyrics c) =
            int (length (word_wrap (current_text c) (chars_per_line_of c)))
              * (GFX_CHAR_H * text_size c)
       \<and> (1 \<le> text_size c \<and> text_size c \<le> 3 \<longrightarrow>
            chars_per_line_of c = SCREEN_WIDTH div (GFX_CHAR_W * text_size c))
       \<and> word_wrap (replicate 40 CHR ''x'') 20 = [replicate 20 CHR ''x'', replicate 20 CHR ''x'']
       \<and> concat (word_wrap (replicate 40 CHR ''x'') 20) = replicate 40 CHR ''x''"
proof -
  have fin: "int (length tx) - pos \<le> cpl \<longrightarrow>
            word_wrap_loop tx cpl pos out = out @ [drop (nat pos) tx]"
    using word_wrap_loop_final [OF assms] by blast
  have soft: "int (length tx) - pos > cpl \<and> pos < s \<and> s < pos + cpl \<and> tx ! nat s = CHR '' ''
            \<and> (\<forall>j. s < j \<and> j < pos + cpl \<longrightarrow> tx ! nat j \<noteq> CHR '' '') \<longrightarrow>
            word_wrap_loop tx cpl pos out =
              word_wrap_loop tx cpl (s + 1) (out @ [take (nat (s - pos)) (drop (nat pos) tx)])"
    using word_wrap_loop_soft [OF assms(1,3), of cpl tx s] by blast
  have hard: "int (length tx) - pos > cpl \<and> 1 \<le> cpl
            \<and> (\<forall>j. pos < j \<and> j < pos + cpl \<longrightarrow> tx ! nat j \<noteq> CHR '' '') \<longrightarrow>
            word_wrap_loop tx cpl pos out =
              word_wrap_loop tx cpl (pos + cpl) (out @ [take (nat cpl) (drop (nat pos) tx)])"
    using word_wrap_loop_hard [OF assms(1,3), of cpl tx] by blast
  have height: "total_lyric_height (paint_lyrics c) =
            int (length (word_wrap (current_text c) (chars_per_line_of c)))
              * (GFX_CHAR_H * text_size c)"
    by (simp add: paint_lyrics_def chars_per_line_of_def Let_def)
  have per_line: "1 \<le> text_size c \<and> text_size c \<le> 3 \<longrightarrow>
            chars_per_line_of c = SCREEN_WIDTH div (GFX_CHAR_W * text_size c)"
  proof
    assume ts: "1 \<le> text_size c \<and> text_size c \<le> 3"
    then have "text_size c = 1 \<or> text_size c = 2 \<or> text_size c = 3" by linarith
    then show "chars_per_line_of c = SCREEN_WIDTH div (GFX_CHAR_W * text_size c)"
      by (auto simp: chars_per_line_of_def SCREEN_WIDTH_def GFX_CHAR_W_def)
  qed
  have ex: "word_wrap (replicate 40 CHR ''x'') 20
              = [replicate 20 CHR ''x'', replicate 20 CHR ''x'']"
    by code_simp
  have cat: "concat (word_wrap (replicate 40 CHR ''x'') 20) = replicate 40 CHR ''x''"
    by (simp only: ex) (simp add: replicate_add [symmetric])
  from fin soft hard height per_line ex cat show ?thesis by blast
qed

theorem word_wrap_greedy_step_witness:
  "word_wrap_loop ''abc'' 5 0 [] = [''abc'']
   \<and> word_wrap_loop ''the quick brown fox'' 10 0 []
       = word_wrap_loop ''the quick brown fox'' 10 10 [''the quick'']
   \<and> word_wrap_loop (replicate 40 CHR ''x'') 20 0 []
       = word_wrap_loop (replicate 40 CHR ''x'') 20 20 [replicate 20 CHR ''x'']"
proof -
  let ?q = "''the quick brown fox''"
  let ?x = "replicate 40 CHR ''x''"
  have p0: "(0::int) \<le> 0" by simp
  have o0: "length ([] :: string list) < 32" by simp
  have a1: "0 < int (length ''abc'')" by simp
  have a2: "0 < int (length ?q)" by simp
  have a3: "0 < int (length ?x)" by simp
  have h1: "int (length ''abc'') - 0 \<le> 5" by simp
  have h2: "int (length ?q) - 0 > 10 \<and> (0::int) < 9 \<and> (9::int) < 0 + 10 \<and> ?q ! nat 9 = CHR '' ''
            \<and> (\<forall>j. 9 < j \<and> j < 0 + 10 \<longrightarrow> ?q ! nat j \<noteq> CHR '' '')"
    by (simp add: numeral_eq_Suc) 
  have h3: "int (length ?x) - 0 > 20 \<and> (1::int) \<le> 20
            \<and> (\<forall>j. 0 < j \<and> j < 0 + 20 \<longrightarrow> ?x ! nat j \<noteq> CHR '' '')"
  proof (intro conjI allI impI)
    fix j :: int
    assume "0 < j \<and> j < 0 + 20"
    then have "nat j < 40" by linarith
    then show "?x ! nat j \<noteq> CHR '' ''" by simp
  qed simp_all
  have f: "word_wrap_loop ''abc'' 5 0 [] = [] @ [drop (nat 0) ''abc'']"
    using word_wrap_greedy_step [OF p0 a1 o0, THEN conjunct1, THEN mp, OF h1] .
  have s: "word_wrap_loop ?q 10 0 []
             = word_wrap_loop ?q 10 (9 + 1) ([] @ [take (nat (9 - 0)) (drop (nat 0) ?q)])"
    using word_wrap_greedy_step
            [OF p0 a2 o0, THEN conjunct2, THEN conjunct1, THEN mp, OF h2] .
  have h: "word_wrap_loop ?x 20 0 []
             = word_wrap_loop ?x 20 (0 + 20) ([] @ [take (nat 20) (drop (nat 0) ?x)])"
    using word_wrap_greedy_step
            [OF p0 a3 o0, THEN conjunct2, THEN conjunct2, THEN conjunct1, THEN mp, OF h3] .
  from f s h show ?thesis by (simp add: numeral_eq_Suc)
qed




section \<open>Properties of the subtitle parser\<close>








end
